theory Spec2Isabelle
  imports Main "HOL-Library.Sublist"
begin

section \<open>The nw news client: data model\<close>

text \<open>
  The development follows \<^verbatim>\<open>src/nw.go\<close>. Go's \<^verbatim>\<open>int\<close> is, on a 64-bit platform, a
  64-bit two's complement integer; it is modelled as a HOL \<open>int\<close> with the wrap-around
  of every addition and subtraction written out (\<open>wrap64\<close>). A \<^verbatim>\<open>time.Time\<close> is an
  instant, modelled as an \<open>int\<close>; \<^verbatim>\<open>Before\<close> is \<open><\<close>.
\<close>

type_synonym time = int

definition wrap64 :: "int \<Rightarrow> int" where
  "wrap64 x = (x + 2 ^ 63) mod 2 ^ 64 - 2 ^ 63"

definition int64 :: "int \<Rightarrow> bool" where
  "int64 x = (- (2 ^ 63) \<le> x \<and> x < 2 ^ 63)"

abbreviation LF :: char where "LF \<equiv> CHR 0x0A"
abbreviation CR :: char where "CR \<equiv> CHR 0x0D"
abbreviation TAB :: char where "TAB \<equiv> CHR 0x09"
abbreviation CRLF :: string where "CRLF \<equiv> [CR, LF]"

text \<open>The protocol's end-of-body line, as the source compares it: \<^verbatim>\<open>".\r\n"\<close>.\<close>

abbreviation DOT_CRLF :: string where "DOT_CRLF \<equiv> [CHR ''.'', CR, LF]"

record GroupState =
  LastArticle :: int
  LastFetch :: time

text \<open>
  The text written to the connection: \<^verbatim>\<open>"GROUP %s\r\n"\<close>, \<^verbatim>\<open>"XOVER %d-%d\r\n"\<close> and
  \<^verbatim>\<open>"ARTICLE %s\r\n"\<close>, kept as structured commands.
\<close>

datatype command = GROUP string | XOVER int int | ARTICLE string

text \<open>The errors built with \<^verbatim>\<open>fmt.Errorf\<close>, one constructor for each message.\<close>

datatype error =
    GroupCommandFailed
  | GroupSelectionFailed string
  | InvalidGroupResponse string
  | InvalidFirstArticle
  | InvalidLastArticle
  | XoverHeaderReadFailed
  | XoverCommandFailed string
  | XoverReadFailed
  | NoArticlesFound
  | FetchFailed string
  | ArticleUnavailable string string
  | ArticleReadError string

text \<open>The lines written to the standard error stream.\<close>

datatype diag =
    NoNewArticles int
  | Resuming int int
  | Warning error
  | SaveStateFailed

text \<open>
  The functions of Go's standard library that the program calls and whose code is not
  part of the repository are parameters of the model: \<^verbatim>\<open>strings.Fields\<close>,
  \<^verbatim>\<open>strconv.Atoi\<close>, \<^verbatim>\<open>strings.TrimSpace\<close>, \<^verbatim>\<open>time.Parse\<close> with the layout
  \<^verbatim>\<open>"Mon, 2 Jan 2006 15:04:05 -0700"\<close>, and \<^verbatim>\<open>AddDate(0, 0, d)\<close>. The clock and the
  file system are oracles: \<open>time_Now n\<close> is what the \<open>n\<close>-th call of \<^verbatim>\<open>time.Now()\<close>
  returns, \<open>saveState_ok n\<close> says whether the \<open>n\<close>-th call of \<^verbatim>\<open>saveState\<close> succeeds
  (serialisation and \<^verbatim>\<open>os.WriteFile\<close>).
\<close>

record golib =
  Fields :: "string \<Rightarrow> string list"
  Atoi :: "string \<Rightarrow> int option"
  TrimSpace :: "string \<Rightarrow> string"
  time_Parse :: "string \<Rightarrow> time option"
  AddDate_days :: "time \<Rightarrow> int \<Rightarrow> time"
  time_Now :: "nat \<Rightarrow> time"
  saveState_ok :: "nat \<Rightarrow> bool"

text \<open>
  The state the program reads and writes: the bytes the server will send (\<open>inp\<close>, what
  the \<^verbatim>\<open>bufio.Reader\<close> has not read yet), the commands written to the connection, the
  standard error stream, the global table \<^verbatim>\<open>state\<close>, the number of calls of
  \<^verbatim>\<open>time.Now()\<close> so far, and the calls of \<^verbatim>\<open>saveState\<close> so far: the file name, the
  table that was serialised and whether the file was written.
\<close>

record world =
  inp :: string
  sent :: "command list"
  stderr :: "diag list"
  state :: "string \<rightharpoonup> GroupState"
  ticks :: nat
  saves :: "(string \<times> (string \<rightharpoonup> GroupState) \<times> bool) list"

section \<open>Library functions with a direct model\<close>

text \<open>\<^verbatim>\<open>strings.HasPrefix(s, p)\<close>.\<close>

definition HasPrefix :: "string \<Rightarrow> string \<Rightarrow> bool" where
  "HasPrefix s p = (take (length p) s = p)"

text \<open>
  \<^verbatim>\<open>reader.ReadString('\n')\<close>: the bytes up to and including the first linefeed, and
  the rest of the stream. When the stream ends before a linefeed the call fails
  (\<open>None\<close>) and the stream is used up: the callers leave nothing to read, so every
  later read fails too, as it does after the end of the stream or a passed deadline.
\<close>

fun ReadString :: "string \<Rightarrow> (string \<times> string) option" where
  "ReadString [] = None"
| "ReadString (c # cs) =
     (if c = LF then Some ([c], cs)
      else (case ReadString cs of
              None \<Rightarrow> None
            | Some (line, rest) \<Rightarrow> Some (c # line, rest)))"

text \<open>\<^verbatim>\<open>strings.Split(line, "\t")\<close>: the fields between the tabs, at least one.\<close>

fun Split_tab :: "string \<Rightarrow> string list" where
  "Split_tab [] = [[]]"
| "Split_tab (c # cs) =
     (if c = TAB then [] # Split_tab cs
      else (case Split_tab cs of
              [] \<Rightarrow> [[c]]
            | f # fs \<Rightarrow> (c # f) # fs))"

text \<open>\<^verbatim>\<open>strings.Index(s, sub)\<close>: the first position of \<open>sub\<close> in \<open>s\<close>, or \<open>-1\<close>.\<close>

fun Index :: "string \<Rightarrow> string \<Rightarrow> int" where
  "Index [] sub = (if sub = [] then 0 else - 1)"
| "Index (c # cs) sub =
     (if HasPrefix (c # cs) sub then 0
      else (let i = Index cs sub in if i < 0 then - 1 else i + 1))"

section \<open>The program\<close>

text \<open>\<^verbatim>\<open>getStateFileName\<close>.\<close>

definition getStateFileName :: "string \<Rightarrow> string" where
  "getStateFileName grp = grp @ ''.json''"

text \<open>
  \<^verbatim>\<open>saveState\<close>: serialise the whole table and write it to the group's file. The call
  is recorded with its outcome; its error, if any, is the returned \<open>False\<close>.
\<close>

definition saveState :: "golib \<Rightarrow> string \<Rightarrow> world \<Rightarrow> bool \<times> world" where
  "saveState lib grp w =
     (let ok = saveState_ok lib (length (saves w))
      in (ok, w\<lparr>saves := saves w @ [(getStateFileName grp, state w, ok)]\<rparr>))"

text \<open>\<^verbatim>\<open>parseDate\<close>.\<close>

definition parseDate :: "golib \<Rightarrow> string \<Rightarrow> time option" where
  "parseDate lib dateStr =
     (let s = TrimSpace lib dateStr;
          idx = Index s '' ('';
          s' = (if idx > 0 then take (nat idx) s else s)
      in time_Parse lib s')"

subsection \<open>fetchArticle\<close>

lemma ReadString_shorter: "ReadString s = Some (line, rest) \<Longrightarrow> length rest < length s"
  by (induction s arbitrary: line) (auto split: if_splits option.splits)

text \<open>The unescaping of a body line (lines 257 to 259).\<close>

definition unescape :: "string \<Rightarrow> string" where
  "unescape line = (if HasPrefix line ''..'' then drop 1 line else line)"

text \<open>
  The body loop of \<^verbatim>\<open>fetchArticle\<close> (lines 249 to 261): \<open>article\<close> is the builder's
  content so far. A failed read returns \<open>None\<close>.
\<close>

function fetchArticle_body :: "string \<Rightarrow> string \<Rightarrow> string option \<times> string" where
  "fetchArticle_body s article =
     (case ReadString s of
        None \<Rightarrow> (None, [])
      | Some (line, rest) \<Rightarrow>
          if line = DOT_CRLF then (Some article, rest)
          else fetchArticle_body rest (article @ unescape line))"
  by pat_completeness auto
termination
  by (relation "measure (\<lambda>(s, article). length s)") (auto dest: ReadString_shorter)

declare fetchArticle_body.simps [simp del]

definition fetchArticle :: "golib \<Rightarrow> world \<Rightarrow> string \<Rightarrow> (error + string) \<times> world" where
  "fetchArticle lib w articleNum =
     (let w1 = w\<lparr>sent := sent w @ [ARTICLE articleNum]\<rparr>
      in case ReadString (inp w1) of
           None \<Rightarrow> (Inl (FetchFailed articleNum), w1\<lparr>inp := []\<rparr>)
         | Some (response, rest) \<Rightarrow>
             if \<not> HasPrefix response ''220 '' then
               (Inl (ArticleUnavailable articleNum (TrimSpace lib response)), w1\<lparr>inp := rest\<rparr>)
             else
               (case fetchArticle_body rest response of
                  (None, rest') \<Rightarrow> (Inl (ArticleReadError articleNum), w1\<lparr>inp := rest'\<rparr>)
                | (Some article, rest') \<Rightarrow> (Inr (article @ DOT_CRLF), w1\<lparr>inp := rest'\<rparr>)))"

subsection \<open>getRecentArticles\<close>

text \<open>
  The resume adjustment (lines 151 to 162): the start of the range to fetch, or \<open>None\<close>
  where the function returns the empty list at once, and the lines written to the
  standard error stream.
\<close>

definition resume_adjust ::
  "bool \<Rightarrow> GroupState option \<Rightarrow> int \<Rightarrow> int \<Rightarrow> int option \<times> diag list" where
  "resume_adjust useLatest saved first lastN =
     (if useLatest then
        (case saved of
           None \<Rightarrow> (Some first, [])
         | Some sv \<Rightarrow>
             if LastArticle sv \<ge> lastN then (None, [NoNewArticles (LastArticle sv)])
             else if LastArticle sv \<ge> first \<and> LastArticle sv < lastN then
               (let first' = wrap64 (LastArticle sv + 1)
                in (Some first', [Resuming first' (LastArticle sv)]))
             else (Some first, []))
      else (Some first, []))"

text \<open>
  What one line of the listing adds to the slice of article numbers (lines 193 to
  204): nothing where the loop continues, the first field otherwise.
\<close>

definition xover_line :: "golib \<Rightarrow> int \<Rightarrow> time \<Rightarrow> string \<Rightarrow> string option" where
  "xover_line lib days cutoff line =
     (let fields = Split_tab line
      in if length fields < 8 then None
         else if days > 0 then
           (case parseDate lib (fields ! 3) of
              None \<Rightarrow> None
            | Some date \<Rightarrow> if date < cutoff then None else Some (fields ! 0))
         else Some (fields ! 0))"

text \<open>
  The loop that reads the listing of a batch (lines 184 to 205); \<open>articleNumbers\<close> is
  the slice built so far.
\<close>

function xover_body ::
  "golib \<Rightarrow> int \<Rightarrow> time \<Rightarrow> string \<Rightarrow> string list \<Rightarrow> string list option \<times> string" where
  "xover_body lib days cutoff s articleNumbers =
     (case ReadString s of
        None \<Rightarrow> (None, [])
      | Some (line, rest) \<Rightarrow>
          if line = DOT_CRLF then (Some articleNumbers, rest)
          else xover_body lib days cutoff rest
                 (case xover_line lib days cutoff line of
                    None \<Rightarrow> articleNumbers
                  | Some num \<Rightarrow> articleNumbers @ [num]))"
  by pat_completeness auto
termination
  by (relation "measure (\<lambda>(lib, days, cutoff, s, articleNumbers). length s)")
    (auto dest: ReadString_shorter)

declare xover_body.simps [simp del]

text \<open>The loop that fetches the listed articles (lines 207 to 214).\<close>

fun fetch_articles ::
  "golib \<Rightarrow> string list \<Rightarrow> string list \<Rightarrow> world \<Rightarrow> string list \<times> world" where
  "fetch_articles lib [] articles w = (articles, w)"
| "fetch_articles lib (num # nums) articles w =
     (case fetchArticle lib w num of
        (Inl err, w') \<Rightarrow>
          fetch_articles lib nums articles (w'\<lparr>stderr := stderr w' @ [Warning err]\<rparr>)
      | (Inr article, w') \<Rightarrow> fetch_articles lib nums (articles @ [article]) w')"

text \<open>The body of the bookmark update (lines 217 to 223).\<close>

definition update_bookmark :: "golib \<Rightarrow> string \<Rightarrow> int \<Rightarrow> world \<Rightarrow> world" where
  "update_bookmark lib grp batchEnd w =
     (let w1 = w\<lparr>state := (state w)(grp \<mapsto>
                   \<lparr>LastArticle = batchEnd, LastFetch = time_Now lib (ticks w)\<rparr>),
                 ticks := Suc (ticks w)\<rparr>;
          (ok, w2) = saveState lib grp w1
      in if ok then w2 else w2\<lparr>stderr := stderr w2 @ [SaveStateFailed]\<rparr>)"

text \<open>The end of the batch that starts at \<open>batchStart\<close> (lines 169 to 172).\<close>

definition batch_end :: "int \<Rightarrow> int \<Rightarrow> int \<Rightarrow> int" where
  "batch_end maxBatchSize lastN batchStart =
     (let batchEnd = wrap64 (wrap64 (batchStart + maxBatchSize) - 1)
      in if batchEnd > lastN then lastN else batchEnd)"

text \<open>
  One turn of the batch loop (lines 169 to 224): \<open>Inl\<close> where the function returns an
  error, otherwise the batch's end and the articles so far.
\<close>

definition process_batch ::
  "golib \<Rightarrow> string \<Rightarrow> int \<Rightarrow> bool \<Rightarrow> int \<Rightarrow> int \<Rightarrow> int \<Rightarrow> time \<Rightarrow> int \<Rightarrow> string list \<Rightarrow> world
     \<Rightarrow> (error + int \<times> string list) \<times> world" where
  "process_batch lib grp days useLatest maxBatchSize first lastN cutoff batchStart articles w =
     (let batchEnd = batch_end maxBatchSize lastN batchStart;
          w1 = w\<lparr>sent := sent w @ [XOVER batchStart batchEnd]\<rparr>
      in case ReadString (inp w1) of
           None \<Rightarrow> (Inl XoverHeaderReadFailed, w1\<lparr>inp := []\<rparr>)
         | Some (xoverHeader, rest) \<Rightarrow>
             if \<not> HasPrefix xoverHeader ''224 '' then
               (Inl (XoverCommandFailed (TrimSpace lib xoverHeader)), w1\<lparr>inp := rest\<rparr>)
             else
               (case xover_body lib days cutoff rest [] of
                  (None, rest') \<Rightarrow> (Inl XoverReadFailed, w1\<lparr>inp := rest'\<rparr>)
                | (Some articleNumbers, rest') \<Rightarrow>
                    (let (articles', w2) =
                           fetch_articles lib articleNumbers articles (w1\<lparr>inp := rest'\<rparr>);
                         w3 = (if useLatest \<and> batchEnd > first
                               then update_bookmark lib grp batchEnd w2 else w2)
                     in (Inr (batchEnd, articles'), w3))))"

subsection \<open>The loops read the stream forward\<close>

lemma fetchArticle_body_eof:
  "ReadString s = None \<Longrightarrow> fetchArticle_body s article = (None, [])"
  by (simp add: fetchArticle_body.simps [of s])

lemma fetchArticle_body_end:
  "ReadString s = Some (DOT_CRLF, rest) \<Longrightarrow> fetchArticle_body s article = (Some article, rest)"
  by (simp add: fetchArticle_body.simps [of s])

lemma fetchArticle_body_step:
  "ReadString s = Some (line, rest) \<Longrightarrow> line \<noteq> DOT_CRLF \<Longrightarrow>
   fetchArticle_body s article =
     fetchArticle_body rest (article @ unescape line)"
  by (simp add: fetchArticle_body.simps [of s])

lemma xover_body_eof:
  "ReadString s = None \<Longrightarrow> xover_body lib days cutoff s nums = (None, [])"
  by (simp add: xover_body.simps [of _ _ _ s])

lemma xover_body_end:
  "ReadString s = Some (DOT_CRLF, rest) \<Longrightarrow>
   xover_body lib days cutoff s nums = (Some nums, rest)"
  by (simp add: xover_body.simps [of _ _ _ s])

lemma xover_body_step:
  "ReadString s = Some (line, rest) \<Longrightarrow> line \<noteq> DOT_CRLF \<Longrightarrow>
   xover_body lib days cutoff s nums =
     xover_body lib days cutoff rest
       (case xover_line lib days cutoff line of None \<Rightarrow> nums | Some num \<Rightarrow> nums @ [num])"
  by (simp add: xover_body.simps [of _ _ _ s])

lemma fetchArticle_body_inp:
  "fetchArticle_body s article = (r, s') \<Longrightarrow> length s' \<le> length s"
proof (induction s arbitrary: article rule: length_induct)
  case (1 s)
  show ?case
  proof (cases "ReadString s")
    case None
    with "1.prems" show ?thesis by (simp add: fetchArticle_body_eof)
  next
    case (Some p)
    obtain line rest where p: "ReadString s = Some (line, rest)" using Some by (cases p) simp
    have sh: "length rest < length s" using p by (rule ReadString_shorter)
    show ?thesis
    proof (cases "line = DOT_CRLF")
      case True
      with "1.prems" p sh show ?thesis by (simp add: fetchArticle_body_end)
    next
      case False
      with "1.prems" p have "fetchArticle_body rest (article @ unescape line) = (r, s')"
        by (simp add: fetchArticle_body_step)
      with "1.IH" sh have "length s' \<le> length rest" by blast
      with sh show ?thesis by simp
    qed
  qed
qed

lemma xover_body_inp:
  "xover_body lib days cutoff s nums = (r, s') \<Longrightarrow> length s' \<le> length s"
proof (induction s arbitrary: nums rule: length_induct)
  case (1 s)
  show ?case
  proof (cases "ReadString s")
    case None
    with "1.prems" show ?thesis by (simp add: xover_body_eof)
  next
    case (Some p)
    obtain line rest where p: "ReadString s = Some (line, rest)" using Some by (cases p) simp
    have sh: "length rest < length s" using p by (rule ReadString_shorter)
    show ?thesis
    proof (cases "line = DOT_CRLF")
      case True
      with "1.prems" p sh show ?thesis by (simp add: xover_body_end)
    next
      case False
      with "1.prems" p have "xover_body lib days cutoff rest
              (case xover_line lib days cutoff line of None \<Rightarrow> nums | Some num \<Rightarrow> nums @ [num]) = (r, s')"
        by (simp add: xover_body_step)
      with "1.IH" sh have "length s' \<le> length rest" by blast
      with sh show ?thesis by simp
    qed
  qed
qed

lemma fetchArticle_inp: "length (inp (snd (fetchArticle lib w num))) \<le> length (inp w)"
  by (auto simp: fetchArticle_def Let_def split: option.splits prod.splits
      dest!: ReadString_shorter fetchArticle_body_inp)

lemma fetch_articles_inp:
  "length (inp (snd (fetch_articles lib nums articles w))) \<le> length (inp w)"
proof (induction nums arbitrary: articles w)
  case Nil
  show ?case by simp
next
  case (Cons num nums)
  obtain r w' where f: "fetchArticle lib w num = (r, w')" by (cases "fetchArticle lib w num")
  have le: "length (inp w') \<le> length (inp w)" using fetchArticle_inp [of lib w num] f by simp
  show ?case
  proof (cases r)
    case (Inl err)
    have "length (inp (snd (fetch_articles lib nums articles (w'\<lparr>stderr := stderr w' @ [Warning err]\<rparr>))))
            \<le> length (inp (w'\<lparr>stderr := stderr w' @ [Warning err]\<rparr>))"
      by (rule Cons.IH)
    with le f Inl show ?thesis by simp
  next
    case (Inr article)
    have "length (inp (snd (fetch_articles lib nums (articles @ [article]) w'))) \<le> length (inp w')"
      by (rule Cons.IH)
    with le f Inr show ?thesis by simp
  qed
qed

lemma update_bookmark_inp: "inp (update_bookmark lib grp batchEnd w) = inp w"
  by (simp add: update_bookmark_def saveState_def Let_def)

lemma process_batch_inp:
  assumes "process_batch lib grp days useLatest maxBatchSize first lastN cutoff batchStart articles w
             = (Inr x, w')"
  shows "length (inp w') < length (inp w)"
proof -
  let ?be = "batch_end maxBatchSize lastN batchStart"
  let ?w1 = "w\<lparr>sent := sent w @ [XOVER batchStart ?be]\<rparr>"
  from assms obtain hdr rest where rd: "ReadString (inp w) = Some (hdr, rest)"
    by (cases "ReadString (inp w)") (auto simp: process_batch_def Let_def)
  from assms rd obtain nums rest' where xb: "xover_body lib days cutoff rest [] = (Some nums, rest')"
    by (cases "xover_body lib days cutoff rest []")
       (auto simp: process_batch_def Let_def split: if_splits option.splits)
  obtain articles' w2 where fa:
    "fetch_articles lib nums articles (?w1\<lparr>inp := rest'\<rparr>) = (articles', w2)"
    by (cases "fetch_articles lib nums articles (?w1\<lparr>inp := rest'\<rparr>)")
  from assms rd xb fa have w': "inp w' = inp w2"
    by (auto simp: process_batch_def Let_def update_bookmark_inp split: if_splits)
  have "length (inp w2) \<le> length rest'"
    using fetch_articles_inp [of lib nums articles "?w1\<lparr>inp := rest'\<rparr>"] fa by simp
  moreover have "length rest' \<le> length rest" using xb by (rule xover_body_inp)
  moreover have "length rest < length (inp w)" using rd by (rule ReadString_shorter)
  ultimately show ?thesis using w' by simp
qed

text \<open>
  The batch loop (lines 168 to 227) and the check that follows it (lines 229 to 233).
  Every turn reads at least the listing's status line, so the loop ends on any
  finite stream.
\<close>

function batch_loop ::
  "golib \<Rightarrow> string \<Rightarrow> int \<Rightarrow> bool \<Rightarrow> int \<Rightarrow> int \<Rightarrow> int \<Rightarrow> time \<Rightarrow> int \<Rightarrow> string list \<Rightarrow> world
     \<Rightarrow> (error + string list) \<times> world" where
  "batch_loop lib grp days useLatest maxBatchSize first lastN cutoff batchStart articles w =
     (if batchStart \<le> lastN then
        (case process_batch lib grp days useLatest maxBatchSize first lastN cutoff
                batchStart articles w of
           (Inl err, w') \<Rightarrow> (Inl err, w')
         | (Inr (batchEnd, articles'), w') \<Rightarrow>
             batch_loop lib grp days useLatest maxBatchSize first lastN cutoff
               (wrap64 (batchEnd + 1)) articles' w')
      else if length articles = 0 then (Inl NoArticlesFound, w)
      else (Inr articles, w))"
  by pat_completeness auto
termination
  by (relation "measure (\<lambda>(lib, grp, days, useLatest, maxBatchSize, first, lastN, cutoff,
                            batchStart, articles, w). length (inp w))")
    (auto dest: process_batch_inp [OF sym])

declare batch_loop.simps [simp del]

text \<open>
  \<^verbatim>\<open>getRecentArticles\<close> from the resume adjustment on (lines 151 to 233), for the range
  \<open>(first, lastN)\<close> that the group's status line gave.
\<close>

definition retrieve_range ::
  "golib \<Rightarrow> string \<Rightarrow> int \<Rightarrow> bool \<Rightarrow> int \<Rightarrow> int \<Rightarrow> int \<Rightarrow> world
     \<Rightarrow> (error + string list) \<times> world" where
  "retrieve_range lib grp days useLatest maxBatchSize first lastN w =
     (case resume_adjust useLatest (state w grp) first lastN of
        (None, msgs) \<Rightarrow> (Inr [], w\<lparr>stderr := stderr w @ msgs\<rparr>)
      | (Some first', msgs) \<Rightarrow>
          (let w1 = w\<lparr>stderr := stderr w @ msgs\<rparr>;
               cutoff = AddDate_days lib (time_Now lib (ticks w1)) (wrap64 (- days));
               w2 = w1\<lparr>ticks := Suc (ticks w1)\<rparr>
           in batch_loop lib grp days useLatest maxBatchSize first' lastN cutoff
                first' [] w2))"

text \<open>\<^verbatim>\<open>getRecentArticles\<close> (lines 125 to 234).\<close>

definition getRecentArticles ::
  "golib \<Rightarrow> world \<Rightarrow> string \<Rightarrow> int \<Rightarrow> bool \<Rightarrow> int \<Rightarrow> (error + string list) \<times> world" where
  "getRecentArticles lib w grp days useLatest maxBatchSize =
     (let w1 = w\<lparr>sent := sent w @ [GROUP grp]\<rparr>
      in case ReadString (inp w1) of
           None \<Rightarrow> (Inl GroupCommandFailed, w1\<lparr>inp := []\<rparr>)
         | Some (response, rest) \<Rightarrow>
             (let w2 = w1\<lparr>inp := rest\<rparr>
              in if \<not> HasPrefix response ''211 '' then
                   (Inl (GroupSelectionFailed (TrimSpace lib response)), w2)
                 else
                   (let parts = Fields lib response
                    in if length parts < 4 then
                         (Inl (InvalidGroupResponse (TrimSpace lib response)), w2)
                       else
                         (case Atoi lib (parts ! 2) of
                            None \<Rightarrow> (Inl InvalidFirstArticle, w2)
                          | Some first \<Rightarrow>
                              (case Atoi lib (parts ! 3) of
                                 None \<Rightarrow> (Inl InvalidLastArticle, w2)
                               | Some lastN \<Rightarrow>
                                   retrieve_range lib grp days useLatest maxBatchSize
                                     first lastN w2)))))"

section \<open>What a run shows, and the batches of the specification\<close>

text \<open>A line as \<open>ReadString\<close> returns it: it ends with its only linefeed.\<close>

definition is_line :: "string \<Rightarrow> bool" where
  "is_line l = (l \<noteq> [] \<and> last l = LF \<and> LF \<notin> set (butlast l))"

text \<open>The ranges of the listing commands among the commands sent, in order.\<close>

fun xover_ranges :: "command list \<Rightarrow> (int \<times> int) list" where
  "xover_ranges [] = []"
| "xover_ranges (XOVER a b # cs) = (a, b) # xover_ranges cs"
| "xover_ranges (c # cs) = xover_ranges cs"

text \<open>
  The batches as the specification words them: while \<open>batchStart \<le> last\<close>, the batch
  from \<open>batchStart\<close> to \<open>min (batchStart + B - 1) last\<close>, on unbounded integers.
\<close>

function spec_batches :: "int \<Rightarrow> int \<Rightarrow> int \<Rightarrow> (int \<times> int) list" where
  "spec_batches B batchStart lastN =
     (if batchStart \<le> lastN \<and> 1 \<le> B
      then (batchStart, min (batchStart + B - 1) lastN)
             # spec_batches B (min (batchStart + B - 1) lastN + 1) lastN
      else [])"
  by pat_completeness auto
termination
  by (relation "measure (\<lambda>(B, batchStart, lastN). nat (lastN - batchStart + 1))") auto

declare spec_batches.simps [simp del]

text \<open>The outcomes of a run in which a listing exchange failed.\<close>

fun listing_failed :: "error + string list \<Rightarrow> bool" where
  "listing_failed (Inl XoverHeaderReadFailed) = True"
| "listing_failed (Inl XoverReadFailed) = True"
| "listing_failed (Inl (XoverCommandFailed s)) = True"
| "listing_failed r = False"

text \<open>
  The last-article values that the recorded calls of \<^verbatim>\<open>saveState\<close> wrote to the group's
  file, in order: the successful calls only.
\<close>

fun saved_articles :: "string \<Rightarrow> (string \<times> (string \<rightharpoonup> GroupState) \<times> bool) list \<Rightarrow> int list" where
  "saved_articles grp [] = []"
| "saved_articles grp ((file, table, ok) # rest) =
     (if ok \<and> file = getStateFileName grp
      then (case table grp of None \<Rightarrow> [] | Some sv \<Rightarrow> [LastArticle sv])
      else []) @ saved_articles grp rest"

section \<open>A concrete library and a concrete world for the examples\<close>

text \<open>
  The examples run the model on a library that behaves as Go's on ASCII text:
  fields and trimming on the six ASCII white-space bytes, \<^verbatim>\<open>Atoi\<close> on an optional sign
  and decimal digits within the 64-bit range. Its clock stands still at day 3 after
  the epoch (in seconds), it parses two dates, and every \<^verbatim>\<open>saveState\<close> succeeds.
\<close>

definition isSpace :: "char \<Rightarrow> bool" where
  "isSpace c = (c = CHR '' '' \<or> c = TAB \<or> c = LF \<or> c = CHR 0x0B \<or> c = CHR 0x0C \<or> c = CR)"

fun fields_from :: "string \<Rightarrow> string \<Rightarrow> string list" where
  "fields_from cur [] = (if cur = [] then [] else [cur])"
| "fields_from cur (c # cs) =
     (if isSpace c then (if cur = [] then fields_from [] cs else cur # fields_from [] cs)
      else fields_from (cur @ [c]) cs)"

fun digits_value :: "int \<Rightarrow> string \<Rightarrow> int option" where
  "digits_value acc [] = Some acc"
| "digits_value acc (c # cs) =
     (let d = int (of_char c) - 48
      in if 0 \<le> d \<and> d \<le> 9 then digits_value (10 * acc + d) cs else None)"

definition atoi_ascii :: "string \<Rightarrow> int option" where
  "atoi_ascii s =
     (let neg = (take 1 s = ''-'');
          ds = (if take 1 s = ''-'' \<or> take 1 s = ''+'' then drop 1 s else s)
      in if ds = [] then None
         else (case digits_value 0 ds of
                 None \<Rightarrow> None
               | Some v \<Rightarrow> (let n = (if neg then - v else v) in if int64 n then Some n else None)))"

definition trim_ascii :: "string \<Rightarrow> string" where
  "trim_ascii s = rev (dropWhile isSpace (rev (dropWhile isSpace s)))"

definition test_lib :: golib where
  "test_lib = \<lparr>Fields = fields_from [], Atoi = atoi_ascii, TrimSpace = trim_ascii,
     time_Parse = (\<lambda>s. if s = ''Thu, 1 Jan 1970 00:00:10 +0000'' then Some 10
                        else if s = ''Sat, 3 Jan 1970 00:00:00 +0000'' then Some 172800 else None),
     AddDate_days = (\<lambda>t d. t + 86400 * d),
     time_Now = (\<lambda>n. 259200),
     saveState_ok = (\<lambda>n. True)\<rparr>"

definition world0 :: world where
  "world0 = \<lparr>inp = [], sent = [], stderr = [], state = Map.empty, ticks = 0, saves = []\<rparr>"

text \<open>A listing that lists nothing: the status line and the end-of-body line.\<close>

definition empty_listing :: string where
  "empty_listing = ''224 overview follows'' @ CRLF @ DOT_CRLF"

text \<open>
  A world for the resume scenarios: the group's range is \<open>(1, 1000)\<close>, the table holds
  the last article \<open>L\<close> for the group, and the server answers one listing, empty.
\<close>

definition resume_world :: "int \<Rightarrow> world" where
  "resume_world L =
     world0\<lparr>inp := ''211 1000 1 1000 g'' @ CRLF @ empty_listing,
            state := [''g'' \<mapsto> \<lparr>LastArticle = L, LastFetch = 0\<rparr>]\<rparr>"

text \<open>
  A line of a listing with the eight fields of the overview format, and four sample
  lines: one dated at the cut-off of the examples (with a zone name in parentheses), one
  older, one whose date does not parse, one with two fields only.
\<close>

definition overview :: "string \<Rightarrow> string \<Rightarrow> string" where
  "overview num date =
     num @ [TAB] @ ''subject'' @ [TAB] @ ''a@b'' @ [TAB] @ date @ [TAB] @ ''<id>'' @ [TAB]
       @ [TAB] @ ''100'' @ [TAB] @ ''10'' @ CRLF"


definition old_line :: string where
  "old_line = overview ''2'' ''Thu, 1 Jan 1970 00:00:10 +0000''"

definition undated_line :: string where
  "undated_line = overview ''3'' ''yesterday''"


text \<open>
  An article as the server sends it, and three streams for the fetch loop: a refusal
  followed by the article, an article cut off by the end of the stream, and a listing
  of two articles followed by a refusal and the article.
\<close>

definition good_article :: string where
  "good_article = ''220 2 <b@c> article'' @ CRLF @ ''body'' @ CRLF @ DOT_CRLF"

definition unavailable_then_good :: world where
  "unavailable_then_good = world0\<lparr>inp := ''430 no such article'' @ CRLF @ good_article\<rparr>"

definition cut_off_article :: world where
  "cut_off_article = world0\<lparr>inp := ''220 1 <a@b> article'' @ CRLF @ ''cut''\<rparr>"

definition listed_batch :: world where
  "listed_batch =
     world0\<lparr>inp := ''224 overview follows'' @ CRLF @ old_line @ undated_line @ DOT_CRLF
                       @ ''430 no such article'' @ CRLF @ good_article\<rparr>"

text \<open>
  A world in which the server answers the group selection with \<open>status\<close> and then
  \<open>n\<close> listings, all empty.
\<close>

definition listings_world :: "string \<Rightarrow> nat \<Rightarrow> world" where
  "listings_world status n = world0\<lparr>inp := status @ CRLF @ concat (replicate n empty_listing)\<rparr>"

text \<open>The same library with a file system on which every \<^verbatim>\<open>saveState\<close> fails.\<close>

definition failing_lib :: golib where
  "failing_lib = test_lib\<lparr>saveState_ok := (\<lambda>n. False)\<rparr>"

text \<open>
  A later run: the range is \<open>(1, 1000)\<close>, the table holds the last article 500 for the
  group, and the server answers two listings, both empty.
\<close>

definition resumed_world :: world where
  "resumed_world =
     (listings_world ''211 1000 1 1000 g'' 2)
       \<lparr>state := [''g'' \<mapsto> \<lparr>LastArticle = 500, LastFetch = 0\<rparr>]\<rparr>"

section \<open>Lines\<close>

lemma ReadString_line: "is_line l \<Longrightarrow> ReadString (l @ rest) = Some (l, rest)"
proof (induction l)
  case Nil
  then show ?case by (simp add: is_line_def)
next
  case (Cons c l)
  show ?case
  proof (cases "l = []")
    case True
    with Cons.prems show ?thesis by (simp add: is_line_def)
  next
    case False
    with Cons.prems have "c \<noteq> LF" and "is_line l" by (auto simp: is_line_def)
    with Cons.IH show ?thesis by simp
  qed
qed

lemma fetchArticle_body_lines:
  "\<forall>l\<in>set body. is_line l \<and> l \<noteq> DOT_CRLF \<Longrightarrow>
   fetchArticle_body (concat body @ DOT_CRLF @ rest) article =
     (Some (article @ concat (map unescape body)), rest)"
proof (induction body arbitrary: article)
  case Nil
  have "ReadString (DOT_CRLF @ rest) = Some (DOT_CRLF, rest)" by simp
  then show ?case by (simp add: fetchArticle_body_end)
next
  case (Cons l body)
  then have l: "is_line l" "l \<noteq> DOT_CRLF" by simp_all
  have "ReadString (l @ (concat body @ DOT_CRLF @ rest)) = Some (l, concat body @ DOT_CRLF @ rest)"
    using l(1) by (rule ReadString_line)
  then have "fetchArticle_body (concat (l # body) @ DOT_CRLF @ rest) article =
             fetchArticle_body (concat body @ DOT_CRLF @ rest) (article @ unescape l)"
    using l(2) by (simp add: fetchArticle_body_step)
  with Cons show ?case by simp
qed

lemma fetchArticle_ok:
  assumes "is_line response" and "HasPrefix response ''220 ''"
    and "\<forall>l\<in>set body. is_line l \<and> l \<noteq> DOT_CRLF"
  shows "fetchArticle lib (w\<lparr>inp := response @ concat body @ DOT_CRLF @ rest\<rparr>) num =
     (Inr (response @ concat (map unescape body) @ DOT_CRLF),
      w\<lparr>inp := rest, sent := sent w @ [ARTICLE num]\<rparr>)"
proof -
  have "ReadString (response @ concat body @ DOT_CRLF @ rest) =
        Some (response, concat body @ DOT_CRLF @ rest)"
    using assms(1) by (rule ReadString_line)
  moreover have "fetchArticle_body (concat body @ DOT_CRLF @ rest) response =
     (Some (response @ concat (map unescape body)), rest)"
    using assms(3) by (rule fetchArticle_body_lines)
  ultimately show ?thesis using assms(2) by (simp add: fetchArticle_def Let_def)
qed

section \<open>The reconstruction of an article\<close>

text \<open>
  Claim C3. \<^verbatim>\<open>fetchArticle\<close>, on a status line that begins with \<^verbatim>\<open>220 \<close>, body lines
  none of which is the end-of-body line, and the end-of-body line, returns the status
  line as it was read, then every body line unescaped, then a synthetic end-of-body
  line; the end-of-body line of the stream is consumed (the stream is left at what
  follows it). Unescaping removes the first byte of a line that begins with two dots and
  changes no other line, so a line with a single leading dot passes through. The body
  \<^verbatim>\<open>Hello\<close>, \<^verbatim>\<open>..escaped\<close>, \<^verbatim>\<open>World\<close> is reconstructed as the spec's scenario says.
\<close>

theorem fetchArticle_reconstructs:
  assumes "is_line response" and "HasPrefix response ''220 ''"
    and "\<forall>l\<in>set body. is_line l \<and> l \<noteq> DOT_CRLF"
  shows "fetchArticle lib (w\<lparr>inp := response @ concat body @ DOT_CRLF @ rest\<rparr>) num =
           (Inr (response @ concat (map unescape body) @ DOT_CRLF),
            w\<lparr>inp := rest, sent := sent w @ [ARTICLE num]\<rparr>)
       \<and> (\<forall>l. HasPrefix l ''..'' \<longrightarrow> unescape l = tl l)
       \<and> (\<forall>l. \<not> HasPrefix l ''..'' \<longrightarrow> unescape l = l)
       \<and> fst (fetchArticle lib
                (w\<lparr>inp := response @ ''Hello'' @ CRLF @ ''..escaped'' @ CRLF @ ''World'' @ CRLF
                            @ DOT_CRLF\<rparr>) num) =
           Inr (response @ ''Hello'' @ CRLF @ ''.escaped'' @ CRLF @ ''World'' @ CRLF @ DOT_CRLF)"
proof -
  have general: "fetchArticle lib (w\<lparr>inp := response @ concat body @ DOT_CRLF @ rest\<rparr>) num =
           (Inr (response @ concat (map unescape body) @ DOT_CRLF),
            w\<lparr>inp := rest, sent := sent w @ [ARTICLE num]\<rparr>)"
    using assms by (rule fetchArticle_ok)
  have strip: "\<forall>l. HasPrefix l ''..'' \<longrightarrow> unescape l = tl l"
    by (simp add: unescape_def drop_Suc)
  have keep: "\<forall>l. \<not> HasPrefix l ''..'' \<longrightarrow> unescape l = l"
    by (simp add: unescape_def)
  let ?body = "[''Hello'' @ CRLF, ''..escaped'' @ CRLF, ''World'' @ CRLF]"
  have "\<forall>l\<in>set ?body. is_line l \<and> l \<noteq> DOT_CRLF"
    by (simp add: is_line_def)
  from fetchArticle_ok [OF assms(1,2) this, where lib = lib and w = w and rest = "[]" and num = num]
  have scenario: "fst (fetchArticle lib
                (w\<lparr>inp := response @ ''Hello'' @ CRLF @ ''..escaped'' @ CRLF @ ''World'' @ CRLF
                            @ DOT_CRLF\<rparr>) num) =
           Inr (response @ ''Hello'' @ CRLF @ ''.escaped'' @ CRLF @ ''World'' @ CRLF @ DOT_CRLF)"
    by (simp add: unescape_def HasPrefix_def)
  from general strip keep scenario show ?thesis by blast
qed

theorem fetchArticle_reconstructs_witness:
  "is_line (''220 7 <a@b> article'' @ CRLF)
   \<and> HasPrefix (''220 7 <a@b> article'' @ CRLF) ''220 ''
   \<and> is_line (''.single'' @ CRLF) \<and> ''.single'' @ CRLF \<noteq> DOT_CRLF
   \<and> is_line (''..'' @ CRLF) \<and> ''..'' @ CRLF \<noteq> DOT_CRLF
   \<and> fetchArticle test_lib
        (world0\<lparr>inp := (''220 7 <a@b> article'' @ CRLF) @ concat [''.single'' @ CRLF, ''..'' @ CRLF]
                         @ DOT_CRLF @ ''next''\<rparr>) ''7'' =
       (Inr (''220 7 <a@b> article'' @ CRLF @ ''.single'' @ CRLF @ DOT_CRLF @ DOT_CRLF),
        world0\<lparr>inp := ''next'', sent := sent world0 @ [ARTICLE ''7'']\<rparr>)
   \<and> HasPrefix (''..escaped'' @ CRLF) ''..''
   \<and> unescape (''..escaped'' @ CRLF) = ''.escaped'' @ CRLF
   \<and> \<not> HasPrefix (''.single'' @ CRLF) ''..''
   \<and> unescape (''.single'' @ CRLF) = ''.single'' @ CRLF"
proof -
  have r: "is_line (''220 7 <a@b> article'' @ CRLF)" by (simp add: is_line_def)
  have p: "HasPrefix (''220 7 <a@b> article'' @ CRLF) ''220 ''" by (simp add: HasPrefix_def)
  have b: "\<forall>l\<in>set [''.single'' @ CRLF, ''..'' @ CRLF]. is_line l \<and> l \<noteq> DOT_CRLF"
    by (simp add: is_line_def)
  have h2: "HasPrefix (''..escaped'' @ CRLF) ''..''" by (simp add: HasPrefix_def)
  have h1: "\<not> HasPrefix (''.single'' @ CRLF) ''..''" by (simp add: HasPrefix_def)
  from fetchArticle_reconstructs
         [OF r p b, where lib = test_lib and w = world0 and rest = "''next''" and num = "''7''"]
       r p b h1 h2
  show ?thesis by (simp add: unescape_def HasPrefix_def is_line_def)
qed

section \<open>Unfolding the batch loop\<close>

lemma wrap64_id: "int64 x \<Longrightarrow> wrap64 x = x"
  by (simp add: wrap64_def int64_def)

lemma batch_loop_done:
  "\<not> batchStart \<le> lastN \<Longrightarrow>
   batch_loop lib grp days useLatest maxBatchSize first lastN cutoff batchStart articles w =
     (if length articles = 0 then (Inl NoArticlesFound, w) else (Inr articles, w))"
  by (simp add: batch_loop.simps [of lib grp days useLatest maxBatchSize first lastN cutoff batchStart])

lemma batch_loop_error:
  "batchStart \<le> lastN \<Longrightarrow>
   process_batch lib grp days useLatest maxBatchSize first lastN cutoff batchStart articles w
     = (Inl err, w') \<Longrightarrow>
   batch_loop lib grp days useLatest maxBatchSize first lastN cutoff batchStart articles w =
     (Inl err, w')"
  by (simp add: batch_loop.simps [of lib grp days useLatest maxBatchSize first lastN cutoff batchStart])

lemma batch_loop_step:
  "batchStart \<le> lastN \<Longrightarrow>
   process_batch lib grp days useLatest maxBatchSize first lastN cutoff batchStart articles w
     = (Inr (batchEnd, articles'), w') \<Longrightarrow>
   batch_loop lib grp days useLatest maxBatchSize first lastN cutoff batchStart articles w =
     batch_loop lib grp days useLatest maxBatchSize first lastN cutoff
       (wrap64 (batchEnd + 1)) articles' w'"
  by (simp add: batch_loop.simps [of lib grp days useLatest maxBatchSize first lastN cutoff batchStart])

lemma process_batch_errors:
  "process_batch lib grp days useLatest maxBatchSize first lastN cutoff batchStart articles w
     = (Inl err, w') \<Longrightarrow>
   err = XoverHeaderReadFailed \<or> err = XoverReadFailed \<or> (\<exists>s. err = XoverCommandFailed s)"
  by (auto simp: process_batch_def Let_def split: option.splits if_splits prod.splits)




section \<open>The resume adjustment\<close>

lemma getRecentArticles_selected:
  assumes "ReadString (inp w) = Some (response, rest)"
    and "HasPrefix response ''211 ''"
    and "4 \<le> length (Fields lib response)"
    and "Atoi lib (Fields lib response ! 2) = Some first"
    and "Atoi lib (Fields lib response ! 3) = Some lastN"
  shows "getRecentArticles lib w grp days useLatest maxBatchSize =
         retrieve_range lib grp days useLatest maxBatchSize first lastN
           (w\<lparr>sent := sent w @ [GROUP grp], inp := rest\<rparr>)"
  using assms by (simp add: getRecentArticles_def Let_def)

lemma retrieve_range_no_new:
  assumes "state w grp = Some sv" and "lastN \<le> LastArticle sv"
  shows "retrieve_range lib grp days True maxBatchSize first lastN w =
         (Inr [], w\<lparr>stderr := stderr w @ [NoNewArticles (LastArticle sv)]\<rparr>)"
  using assms by (simp add: retrieve_range_def resume_adjust_def)

lemma retrieve_range_resumed:
  assumes "state w grp = Some sv" and "first \<le> LastArticle sv" and "LastArticle sv < lastN"
    and "int64 first" and "int64 lastN"
  shows "retrieve_range lib grp days True maxBatchSize first lastN w =
         batch_loop lib grp days True maxBatchSize (LastArticle sv + 1) lastN
           (AddDate_days lib (time_Now lib (ticks w)) (wrap64 (- days)))
           (LastArticle sv + 1) []
           (w\<lparr>stderr := stderr w @ [Resuming (LastArticle sv + 1) (LastArticle sv)],
              ticks := Suc (ticks w)\<rparr>)"
proof -
  from assms have "int64 (LastArticle sv + 1)" by (simp add: int64_def)
  then have "wrap64 (LastArticle sv + 1) = LastArticle sv + 1" by (rule wrap64_id)
  with assms show ?thesis by (simp add: retrieve_range_def resume_adjust_def Let_def)
qed

lemma retrieve_range_unchanged:
  assumes "useLatest \<longrightarrow> (case state w grp of None \<Rightarrow> True
             | Some sv \<Rightarrow> LastArticle sv < lastN \<and> LastArticle sv < first)"
  shows "retrieve_range lib grp days useLatest maxBatchSize first lastN w =
         batch_loop lib grp days useLatest maxBatchSize first lastN
           (AddDate_days lib (time_Now lib (ticks w)) (wrap64 (- days))) first []
           (w\<lparr>ticks := Suc (ticks w)\<rparr>)"
  using assms by (auto simp: retrieve_range_def resume_adjust_def Let_def split: option.splits)

text \<open>
  Claim C2. Let the group's status line give the range \<open>(first, lastN)\<close>, let resume
  mode be on and let the table hold a state for the group, with last article \<open>L\<close>.
  If \<open>L \<ge> lastN\<close> the function returns the empty list with no error; the only command it
  has sent is the group selection, so no listing and no fetch. If \<open>first \<le> L < lastN\<close>
  the batch loop runs with \<open>L + 1\<close> as the range's start and first batch start.
  Otherwise (\<open>L < lastN\<close> and \<open>L < first\<close>) it runs with \<open>first\<close> unchanged.
\<close>

theorem resume_adjustment:
  assumes "ReadString (inp w) = Some (response, rest)"
    and "HasPrefix response ''211 ''"
    and "4 \<le> length (Fields lib response)"
    and "Atoi lib (Fields lib response ! 2) = Some first"
    and "Atoi lib (Fields lib response ! 3) = Some lastN"
    and "int64 first" and "int64 lastN"
    and "state w grp = Some sv"
  shows "(lastN \<le> LastArticle sv \<longrightarrow>
            getRecentArticles lib w grp days True maxBatchSize =
              (Inr [], w\<lparr>sent := sent w @ [GROUP grp], inp := rest,
                          stderr := stderr w @ [NoNewArticles (LastArticle sv)]\<rparr>))
       \<and> (first \<le> LastArticle sv \<and> LastArticle sv < lastN \<longrightarrow>
            getRecentArticles lib w grp days True maxBatchSize =
              batch_loop lib grp days True maxBatchSize (LastArticle sv + 1) lastN
                (AddDate_days lib (time_Now lib (ticks w)) (wrap64 (- days)))
                (LastArticle sv + 1) []
                (w\<lparr>sent := sent w @ [GROUP grp], inp := rest,
                   stderr := stderr w @ [Resuming (LastArticle sv + 1) (LastArticle sv)],
                   ticks := Suc (ticks w)\<rparr>))
       \<and> (LastArticle sv < lastN \<and> LastArticle sv < first \<longrightarrow>
            getRecentArticles lib w grp days True maxBatchSize =
              batch_loop lib grp days True maxBatchSize first lastN
                (AddDate_days lib (time_Now lib (ticks w)) (wrap64 (- days))) first []
                (w\<lparr>sent := sent w @ [GROUP grp], inp := rest, ticks := Suc (ticks w)\<rparr>))"
proof -
  let ?w = "w\<lparr>sent := sent w @ [GROUP grp], inp := rest\<rparr>"
  have sel: "getRecentArticles lib w grp days True maxBatchSize =
             retrieve_range lib grp days True maxBatchSize first lastN ?w"
    using assms(1-5) by (rule getRecentArticles_selected)
  have sv: "state ?w grp = Some sv" using assms(8) by simp
  have a: "lastN \<le> LastArticle sv \<Longrightarrow>
           retrieve_range lib grp days True maxBatchSize first lastN ?w =
           (Inr [], ?w\<lparr>stderr := stderr ?w @ [NoNewArticles (LastArticle sv)]\<rparr>)"
    using sv by (rule retrieve_range_no_new)
  have b: "first \<le> LastArticle sv \<Longrightarrow> LastArticle sv < lastN \<Longrightarrow>
           retrieve_range lib grp days True maxBatchSize first lastN ?w =
           batch_loop lib grp days True maxBatchSize (LastArticle sv + 1) lastN
             (AddDate_days lib (time_Now lib (ticks ?w)) (wrap64 (- days)))
             (LastArticle sv + 1) []
             (?w\<lparr>stderr := stderr ?w @ [Resuming (LastArticle sv + 1) (LastArticle sv)],
                 ticks := Suc (ticks ?w)\<rparr>)"
    using sv assms(6,7) by (simp add: retrieve_range_resumed)
  have c: "LastArticle sv < lastN \<and> LastArticle sv < first \<Longrightarrow>
           retrieve_range lib grp days True maxBatchSize first lastN ?w =
           batch_loop lib grp days True maxBatchSize first lastN
             (AddDate_days lib (time_Now lib (ticks ?w)) (wrap64 (- days))) first []
             (?w\<lparr>ticks := Suc (ticks ?w)\<rparr>)"
    using sv by (intro retrieve_range_unchanged) simp
  from a b c sel show ?thesis by simp
qed

theorem resume_adjustment_witness:
  "ReadString (inp (resume_world 1000)) = Some (''211 1000 1 1000 g'' @ CRLF, empty_listing)
   \<and> HasPrefix (''211 1000 1 1000 g'' @ CRLF) ''211 ''
   \<and> 4 \<le> length (Fields test_lib (''211 1000 1 1000 g'' @ CRLF))
   \<and> Atoi test_lib (Fields test_lib (''211 1000 1 1000 g'' @ CRLF) ! 2) = Some 1
   \<and> Atoi test_lib (Fields test_lib (''211 1000 1 1000 g'' @ CRLF) ! 3) = Some 1000
   \<and> int64 1 \<and> int64 1000
   \<and> state (resume_world 1000) ''g'' = Some \<lparr>LastArticle = 1000, LastFetch = 0\<rparr>
   \<and> (1000 :: int) \<le> 1000
   \<and> getRecentArticles test_lib (resume_world 1000) ''g'' 1 True 500 =
       (Inr [], (resume_world 1000)\<lparr>sent := [GROUP ''g''], inp := empty_listing,
                   stderr := [NoNewArticles 1000]\<rparr>)
   \<and> state (resume_world 500) ''g'' = Some \<lparr>LastArticle = 500, LastFetch = 0\<rparr>
   \<and> (1 :: int) \<le> 500 \<and> (500 :: int) < 1000
   \<and> getRecentArticles test_lib (resume_world 500) ''g'' 1 True 500 =
       batch_loop test_lib ''g'' 1 True 500 501 1000
         (AddDate_days test_lib (time_Now test_lib 0) (wrap64 (- 1))) 501 []
         ((resume_world 500)\<lparr>sent := [GROUP ''g''], inp := empty_listing,
            stderr := [Resuming 501 500], ticks := 1\<rparr>)
   \<and> sent (snd (getRecentArticles test_lib (resume_world 500) ''g'' 1 True 500)) =
       [GROUP ''g'', XOVER 501 1000]
   \<and> state (resume_world 0) ''g'' = Some \<lparr>LastArticle = 0, LastFetch = 0\<rparr>
   \<and> (0 :: int) < 1000 \<and> (0 :: int) < 1
   \<and> getRecentArticles test_lib (resume_world 0) ''g'' 1 True 500 =
       batch_loop test_lib ''g'' 1 True 500 1 1000
         (AddDate_days test_lib (time_Now test_lib 0) (wrap64 (- 1))) 1 []
         ((resume_world 0)\<lparr>sent := [GROUP ''g''], inp := empty_listing, ticks := 1\<rparr>)
   \<and> sent (snd (getRecentArticles test_lib (resume_world 0) ''g'' 1 True 500)) =
       [GROUP ''g'', XOVER 1 500, XOVER 501 1000]"
proof -
  let ?resp = "''211 1000 1 1000 g'' @ CRLF"
  have rd: "\<And>L. ReadString (inp (resume_world L)) = Some (?resp, empty_listing)"
    by (simp add: resume_world_def world0_def)
  have pre: "HasPrefix ?resp ''211 ''" by (simp add: HasPrefix_def)
  have len: "4 \<le> length (Fields test_lib ?resp)" by code_simp
  have a1: "Atoi test_lib (Fields test_lib ?resp ! 2) = Some 1" by code_simp
  have a2: "Atoi test_lib (Fields test_lib ?resp ! 3) = Some 1000" by code_simp
  have i1: "int64 1" and i2: "int64 1000" by (simp_all add: int64_def)
  have st: "\<And>L. state (resume_world L) ''g'' = Some \<lparr>LastArticle = L, LastFetch = 0\<rparr>"
    by (simp add: resume_world_def world0_def)
  have s0: "\<And>L. sent (resume_world L) = []" "\<And>L. stderr (resume_world L) = []"
    "\<And>L. ticks (resume_world L) = 0"
    by (simp_all add: resume_world_def world0_def)
  note t = resume_adjustment [OF rd pre len a1 a2 i1 i2 st, where days = 1 and maxBatchSize = 500]
  have e1: "sent (snd (getRecentArticles test_lib (resume_world 500) ''g'' 1 True 500)) =
       [GROUP ''g'', XOVER 501 1000]" by code_simp
  have e2: "sent (snd (getRecentArticles test_lib (resume_world 0) ''g'' 1 True 500)) =
       [GROUP ''g'', XOVER 1 500, XOVER 501 1000]" by code_simp
  from t [of 1000] t [of 500] t [of 0] rd [of 1000] pre len a1 a2 i1 i2 st e1 e2
  show ?thesis by (simp add: s0)
qed

section \<open>No matching articles\<close>




section \<open>The listing of a batch\<close>

lemma Split_tab_nonempty: "Split_tab s \<noteq> []"
  by (induction s) (auto split: list.splits)

lemma Split_tab_first: "Split_tab s ! 0 = takeWhile (\<lambda>c. c \<noteq> TAB) s"
proof (induction s)
  case Nil
  show ?case by simp
next
  case (Cons c s)
  obtain f fs where "Split_tab s = f # fs"
    using Split_tab_nonempty [of s] by (cases "Split_tab s") auto
  with Cons show ?case by auto
qed

lemma xover_line_first:
  "xover_line lib days cutoff l = Some num \<Longrightarrow> num = takeWhile (\<lambda>c. c \<noteq> TAB) l"
  by (auto simp: xover_line_def Let_def Split_tab_first split: if_splits option.splits)

lemma xover_line_short: "length (Split_tab l) < 8 \<Longrightarrow> xover_line lib days cutoff l = None"
  by (simp add: xover_line_def)

lemma xover_line_unfiltered:
  "8 \<le> length (Split_tab l) \<Longrightarrow> days \<le> 0 \<Longrightarrow>
   xover_line lib days cutoff l = Some (Split_tab l ! 0)"
  by (simp add: xover_line_def)


lemma xover_body_line:
  assumes "is_line l" and "l \<noteq> DOT_CRLF"
  shows "xover_body lib days cutoff (l @ rest) nums =
         xover_body lib days cutoff rest
           (case xover_line lib days cutoff l of None \<Rightarrow> nums | Some num \<Rightarrow> nums @ [num])"
proof -
  have "ReadString (l @ rest) = Some (l, rest)" using assms(1) by (rule ReadString_line)
  then show ?thesis using assms(2) by (rule xover_body_step)
qed

lemma xover_body_lines:
  "\<forall>l\<in>set ls. is_line l \<and> l \<noteq> DOT_CRLF \<Longrightarrow>
   xover_body lib days cutoff (concat ls @ DOT_CRLF @ rest) nums =
     (Some (nums @ List.map_filter (xover_line lib days cutoff) ls), rest)"
proof (induction ls arbitrary: nums)
  case Nil
  have "ReadString (DOT_CRLF @ rest) = Some (DOT_CRLF, rest)" by simp
  then show ?case by (simp add: xover_body_end List.map_filter_simps)
next
  case (Cons l ls)
  then have l: "is_line l" "l \<noteq> DOT_CRLF" by simp_all
  have "xover_body lib days cutoff (concat (l # ls) @ DOT_CRLF @ rest) nums =
        xover_body lib days cutoff (concat ls @ DOT_CRLF @ rest)
          (case xover_line lib days cutoff l of None \<Rightarrow> nums | Some num \<Rightarrow> nums @ [num])"
    using xover_body_line [OF l, of lib days cutoff "concat ls @ DOT_CRLF @ rest" nums] by simp
  with Cons show ?case
    by (cases "xover_line lib days cutoff l") (simp_all add: List.map_filter_simps)
qed

lemma fetchArticle_body_line:
  assumes "is_line l" and "l \<noteq> DOT_CRLF"
  shows "fetchArticle_body (l @ rest) article = fetchArticle_body rest (article @ unescape l)"
proof -
  have "ReadString (l @ rest) = Some (l, rest)" using assms(1) by (rule ReadString_line)
  then show ?thesis using assms(2) by (rule fetchArticle_body_step)
qed

section \<open>Fetching the listed articles\<close>

lemma fetchArticle_frame:
  "fetchArticle lib w num = (r, w') \<Longrightarrow>
   sent w' = sent w @ [ARTICLE num] \<and> stderr w' = stderr w \<and> state w' = state w
   \<and> ticks w' = ticks w \<and> saves w' = saves w"
  by (auto simp: fetchArticle_def Let_def split: option.splits if_splits prod.splits)

lemma fetch_articles_effect:
  "fetch_articles lib nums articles w = (articles', w') \<Longrightarrow>
   (\<exists>new errs. articles' = articles @ new \<and> stderr w' = stderr w @ map Warning errs
      \<and> length new + length errs = length nums)
   \<and> sent w' = sent w @ map ARTICLE nums \<and> state w' = state w
   \<and> ticks w' = ticks w \<and> saves w' = saves w"
proof (induction nums arbitrary: articles w)
  case Nil
  then show ?case by simp
next
  case (Cons num nums)
  obtain r w1 where f: "fetchArticle lib w num = (r, w1)" by (cases "fetchArticle lib w num")
  note fr = fetchArticle_frame [OF f]
  show ?case
  proof (cases r)
    case (Inl err)
    let ?w2 = "w1\<lparr>stderr := stderr w1 @ [Warning err]\<rparr>"
    from Cons.prems f Inl have "fetch_articles lib nums articles ?w2 = (articles', w')" by simp
    from Cons.IH [OF this] obtain new errs where
      n: "articles' = articles @ new" "stderr w' = stderr ?w2 @ map Warning errs"
        "length new + length errs = length nums"
      and rest: "sent w' = sent ?w2 @ map ARTICLE nums" "state w' = state ?w2"
        "ticks w' = ticks ?w2" "saves w' = saves ?w2"
      by blast
    from n fr have "articles' = articles @ new \<and> stderr w' = stderr w @ map Warning (err # errs)
        \<and> length new + length (err # errs) = length (num # nums)" by simp
    then have "\<exists>new errs. articles' = articles @ new \<and> stderr w' = stderr w @ map Warning errs
        \<and> length new + length errs = length (num # nums)" by blast
    with rest fr show ?thesis by simp
  next
    case (Inr article)
    from Cons.prems f Inr have "fetch_articles lib nums (articles @ [article]) w1 = (articles', w')"
      by simp
    from Cons.IH [OF this] obtain new errs where
      n: "articles' = (articles @ [article]) @ new" "stderr w' = stderr w1 @ map Warning errs"
        "length new + length errs = length nums"
      and rest: "sent w' = sent w1 @ map ARTICLE nums" "state w' = state w1"
        "ticks w' = ticks w1" "saves w' = saves w1"
      by blast
    from n fr have "articles' = articles @ (article # new) \<and> stderr w' = stderr w @ map Warning errs
        \<and> length (article # new) + length errs = length (num # nums)" by simp
    then have "\<exists>new errs. articles' = articles @ new \<and> stderr w' = stderr w @ map Warning errs
        \<and> length new + length errs = length (num # nums)" by blast
    with rest fr show ?thesis by simp
  qed
qed

lemma fetchArticle_failures:
  "fst (fetchArticle lib w num) =
     (case ReadString (inp w) of
        None \<Rightarrow> Inl (FetchFailed num)
      | Some (response, rest) \<Rightarrow>
          if \<not> HasPrefix response ''220 '' then
            Inl (ArticleUnavailable num (TrimSpace lib response))
          else (case fst (fetchArticle_body rest response) of
                  None \<Rightarrow> Inl (ArticleReadError num)
                | Some article \<Rightarrow> Inr (article @ DOT_CRLF)))"
  by (auto simp: fetchArticle_def Let_def split: option.splits prod.splits)

lemma fetchArticle_ends:
  "fetchArticle lib w num = (Inr article, w') \<Longrightarrow> suffix DOT_CRLF article"
  by (auto simp: fetchArticle_def Let_def suffix_def split: option.splits prod.splits if_splits)

lemma update_bookmark_frame:
  "sent (update_bookmark lib grp batchEnd w) = sent w
   \<and> inp (update_bookmark lib grp batchEnd w) = inp w"
  by (simp add: update_bookmark_def saveState_def Let_def)


lemma retrieve_range_loop:
  assumes "resume_adjust useLatest (state w grp) first lastN = (Some first', msgs)"
  shows "retrieve_range lib grp days useLatest maxBatchSize first lastN w =
         batch_loop lib grp days useLatest maxBatchSize first' lastN
           (AddDate_days lib (time_Now lib (ticks w)) (wrap64 (- days))) first' []
           (w\<lparr>stderr := stderr w @ msgs, ticks := Suc (ticks w)\<rparr>)"
  using assms by (simp add: retrieve_range_def Let_def)

section \<open>The age filter\<close>



section \<open>The listing is read as it was sent\<close>

text \<open>
  Claim C10. The listing loop hands every line but the end-of-body line to \<open>xover_line\<close>
  as it was read: the number it adds, if any, is the first tab field of the raw line,
  that is the line up to its first tab. A line that begins with two dots keeps both in
  that field, while the body loop of \<^verbatim>\<open>fetchArticle\<close> drops the first byte of the same
  line.
\<close>

theorem listing_keeps_dots:
  assumes "is_line l" and "l \<noteq> DOT_CRLF"
  shows "xover_body lib days cutoff (l @ rest) nums =
           xover_body lib days cutoff rest
             (case xover_line lib days cutoff l of None \<Rightarrow> nums | Some num \<Rightarrow> nums @ [num])
       \<and> (\<forall>num. xover_line lib days cutoff l = Some num \<longrightarrow>
             num = Split_tab l ! 0 \<and> num = takeWhile (\<lambda>c. c \<noteq> TAB) l)
       \<and> (8 \<le> length (Split_tab l) \<and> days \<le> 0 \<longrightarrow>
             xover_line lib days cutoff l = Some (takeWhile (\<lambda>c. c \<noteq> TAB) l))
       \<and> (HasPrefix l ''..'' \<longrightarrow>
             HasPrefix (takeWhile (\<lambda>c. c \<noteq> TAB) l) ''..''
             \<and> fetchArticle_body (l @ rest) article = fetchArticle_body rest (article @ tl l))"
proof -
  have step: "xover_body lib days cutoff (l @ rest) nums =
           xover_body lib days cutoff rest
             (case xover_line lib days cutoff l of None \<Rightarrow> nums | Some num \<Rightarrow> nums @ [num])"
    using assms by (rule xover_body_line)
  have raw: "\<forall>num. xover_line lib days cutoff l = Some num \<longrightarrow>
             num = Split_tab l ! 0 \<and> num = takeWhile (\<lambda>c. c \<noteq> TAB) l"
    by (auto dest: xover_line_first simp: Split_tab_first)
  have kept: "8 \<le> length (Split_tab l) \<and> days \<le> 0 \<longrightarrow>
             xover_line lib days cutoff l = Some (takeWhile (\<lambda>c. c \<noteq> TAB) l)"
    by (simp add: xover_line_unfiltered Split_tab_first)
  have dots: "HasPrefix l ''..'' \<longrightarrow> HasPrefix (takeWhile (\<lambda>c. c \<noteq> TAB) l) ''..''"
  proof
    assume "HasPrefix l ''..''"
    then obtain x where "l = ''..'' @ x"
      by (metis HasPrefix_def append_take_drop_id)
    then show "HasPrefix (takeWhile (\<lambda>c. c \<noteq> TAB) l) ''..''" by (simp add: HasPrefix_def)
  qed
  have strip: "HasPrefix l ''..'' \<longrightarrow>
        fetchArticle_body (l @ rest) article = fetchArticle_body rest (article @ tl l)"
    using fetchArticle_body_line [OF assms, of rest article] by (simp add: unescape_def drop_Suc)
  from step raw kept dots strip show ?thesis by blast
qed

theorem listing_keeps_dots_witness:
  "is_line (overview ''..5'' ''date'') \<and> overview ''..5'' ''date'' \<noteq> DOT_CRLF
   \<and> xover_line test_lib 0 0 (overview ''..5'' ''date'') = Some ''..5''
   \<and> 8 \<le> length (Split_tab (overview ''..5'' ''date'')) \<and> (0 :: int) \<le> 0
   \<and> HasPrefix (overview ''..5'' ''date'') ''..''
   \<and> xover_body test_lib 0 0 (overview ''..5'' ''date'' @ DOT_CRLF) [] = (Some [''..5''], [])
   \<and> fetchArticle_body (overview ''..5'' ''date'' @ DOT_CRLF) [] =
       (Some (tl (overview ''..5'' ''date'')), [])"
proof -
  let ?l = "overview ''..5'' ''date''"
  have l: "is_line ?l" "?l \<noteq> DOT_CRLF" by (simp_all add: overview_def is_line_def)
  note T = listing_keeps_dots [OF l, where lib = test_lib and days = 0 and cutoff = 0
      and rest = DOT_CRLF and nums = "[]" and article = "[]"]
  have f: "8 \<le> length (Split_tab ?l)" by code_simp
  have d: "HasPrefix ?l ''..''" by (simp add: overview_def HasPrefix_def)
  have tw: "takeWhile (\<lambda>c. c \<noteq> TAB) ?l = ''..5''" by (simp add: overview_def)
  have x: "xover_line test_lib 0 0 ?l = Some ''..5''" using T f tw by simp
  have e1: "\<And>nums. xover_body test_lib 0 0 DOT_CRLF nums = (Some nums, [])"
    by (simp add: xover_body_end)
  have e2: "\<And>a. fetchArticle_body DOT_CRLF a = (Some a, [])"
    by (simp add: fetchArticle_body_end)
  have xb: "xover_body test_lib 0 0 (?l @ DOT_CRLF) [] = (Some [''..5''], [])"
    using T x e1 by simp
  have fb: "fetchArticle_body (?l @ DOT_CRLF) [] = (Some (tl ?l), [])"
    using T d e2 by simp
  from l x f d xb fb show ?thesis by simp
qed

section \<open>Fetch failures\<close>

lemma process_batch_completes:
  assumes "ReadString (inp w) = Some (hdr, rest)" and "HasPrefix hdr ''224 ''"
    and "xover_body lib days cutoff rest [] = (Some nums, rest')"
  shows "\<exists>new w'.
           process_batch lib grp days useLatest maxBatchSize first lastN cutoff batchStart articles w
             = (Inr (batch_end maxBatchSize lastN batchStart, articles @ new), w')"
proof -
  let ?be = "batch_end maxBatchSize lastN batchStart"
  let ?w1 = "w\<lparr>sent := sent w @ [XOVER batchStart ?be], inp := rest'\<rparr>"
  obtain articles' w2 where fa: "fetch_articles lib nums articles ?w1 = (articles', w2)"
    by (cases "fetch_articles lib nums articles ?w1")
  from fetch_articles_effect [OF fa] obtain new where new: "articles' = articles @ new" by blast
  let ?w3 = "if useLatest \<and> ?be > first then update_bookmark lib grp ?be w2 else w2"
  have "process_batch lib grp days useLatest maxBatchSize first lastN cutoff batchStart articles w
          = (Inr (?be, articles'), ?w3)"
    using assms fa by (simp add: process_batch_def Let_def)
  with new show ?thesis by blast
qed

text \<open>
  Claim C9. The fetch loop sends one \<^verbatim>\<open>ARTICLE\<close> command for every listed number, in
  order, whatever the earlier fetches did; it returns the articles it was given followed
  by the new ones, and it writes one warning for every number that gave no article. A
  failed fetch (the status line cannot be read, it does not begin with \<^verbatim>\<open>220 \<close>, or the
  body cannot be read to its end) makes the loop write the warning and go on with the
  rest of the numbers. A batch whose listing was read returns no error, whatever its
  fetches did, and its articles extend the ones fetched before.
\<close>

theorem fetch_failure_not_fatal:
  "(\<exists>new errs. fst (fetch_articles lib nums articles w) = articles @ new
       \<and> stderr (snd (fetch_articles lib nums articles w)) = stderr w @ map Warning errs
       \<and> length new + length errs = length nums)
   \<and> sent (snd (fetch_articles lib nums articles w)) = sent w @ map ARTICLE nums
   \<and> (\<forall>err w'. fetchArticle lib w num = (Inl err, w') \<longrightarrow>
         fetch_articles lib (num # nums) articles w =
           fetch_articles lib nums articles (w'\<lparr>stderr := stderr w' @ [Warning err]\<rparr>))
   \<and> fst (fetchArticle lib w num) =
       (case ReadString (inp w) of
          None \<Rightarrow> Inl (FetchFailed num)
        | Some (response, rest) \<Rightarrow>
            if \<not> HasPrefix response ''220 '' then
              Inl (ArticleUnavailable num (TrimSpace lib response))
            else (case fst (fetchArticle_body rest response) of
                    None \<Rightarrow> Inl (ArticleReadError num)
                  | Some article \<Rightarrow> Inr (article @ DOT_CRLF)))
   \<and> (\<forall>hdr rest listed rest'.
         ReadString (inp w) = Some (hdr, rest) \<and> HasPrefix hdr ''224 ''
         \<and> xover_body lib days cutoff rest [] = (Some listed, rest') \<longrightarrow>
         (\<exists>new w'.
            process_batch lib grp days useLatest maxBatchSize first lastN cutoff batchStart
              articles w = (Inr (batch_end maxBatchSize lastN batchStart, articles @ new), w')))"
proof -
  obtain articles' w' where fa: "fetch_articles lib nums articles w = (articles', w')"
    by (cases "fetch_articles lib nums articles w")
  from fetch_articles_effect [OF fa]
  have loop: "(\<exists>new errs. fst (fetch_articles lib nums articles w) = articles @ new
       \<and> stderr (snd (fetch_articles lib nums articles w)) = stderr w @ map Warning errs
       \<and> length new + length errs = length nums)"
    and cmds: "sent (snd (fetch_articles lib nums articles w)) = sent w @ map ARTICLE nums"
    using fa by simp_all
  have skip: "\<forall>err w'. fetchArticle lib w num = (Inl err, w') \<longrightarrow>
         fetch_articles lib (num # nums) articles w =
           fetch_articles lib nums articles (w'\<lparr>stderr := stderr w' @ [Warning err]\<rparr>)"
    by simp
  have batch: "\<forall>hdr rest listed rest'.
         ReadString (inp w) = Some (hdr, rest) \<and> HasPrefix hdr ''224 ''
         \<and> xover_body lib days cutoff rest [] = (Some listed, rest') \<longrightarrow>
         (\<exists>new w'.
            process_batch lib grp days useLatest maxBatchSize first lastN cutoff batchStart
              articles w = (Inr (batch_end maxBatchSize lastN batchStart, articles @ new), w'))"
    by (blast intro: process_batch_completes)
  from loop cmds skip fetchArticle_failures [of lib w num] batch show ?thesis by blast
qed

theorem fetch_failure_not_fatal_witness:
  "fst (fetchArticle test_lib unavailable_then_good ''1'') =
     Inl (ArticleUnavailable ''1'' ''430 no such article'')
   \<and> fst (fetch_articles test_lib [''1'', ''2''] [''previous''] unavailable_then_good) =
       [''previous'', good_article]
   \<and> stderr (snd (fetch_articles test_lib [''1'', ''2''] [''previous''] unavailable_then_good)) =
       [Warning (ArticleUnavailable ''1'' ''430 no such article'')]
   \<and> sent (snd (fetch_articles test_lib [''1'', ''2''] [''previous''] unavailable_then_good)) =
       [ARTICLE ''1'', ARTICLE ''2'']
   \<and> fst (fetch_articles test_lib [''1'', ''2''] [''previous''] cut_off_article) = [''previous'']
   \<and> stderr (snd (fetch_articles test_lib [''1'', ''2''] [''previous''] cut_off_article)) =
       [Warning (ArticleReadError ''1''), Warning (FetchFailed ''2'')]
   \<and> ReadString (inp listed_batch) =
       Some (''224 overview follows'' @ CRLF,
             old_line @ undated_line @ DOT_CRLF @ ''430 no such article'' @ CRLF @ good_article)
   \<and> HasPrefix (''224 overview follows'' @ CRLF) ''224 ''
   \<and> xover_body test_lib 0 0
        (old_line @ undated_line @ DOT_CRLF @ ''430 no such article'' @ CRLF @ good_article) [] =
       (Some [''2'', ''3''], ''430 no such article'' @ CRLF @ good_article)
   \<and> fst (process_batch test_lib ''g'' 0 False 500 1 1000 0 1 [''previous''] listed_batch) =
       Inr (500, [''previous'', good_article])"
proof -
  let ?E = "ArticleUnavailable ''1'' ''430 no such article''"
  let ?w' = "snd (fetchArticle test_lib unavailable_then_good ''1'')"
  note T = fetch_failure_not_fatal [where lib = test_lib and w = unavailable_then_good
      and num = "''1''" and nums = "[''2'']" and articles = "[''previous'']"]
  note skip = T [THEN conjunct2, THEN conjunct2, THEN conjunct1, rule_format]
  have f1: "fst (fetchArticle test_lib unavailable_then_good ''1'') = Inl ?E" by code_simp
  then have "fetchArticle test_lib unavailable_then_good ''1'' = (Inl ?E, ?w')"
    by (simp add: prod_eq_iff)
  from skip [OF this]
  have cont: "fetch_articles test_lib [''1'', ''2''] [''previous''] unavailable_then_good =
              fetch_articles test_lib [''2''] [''previous'']
                (?w'\<lparr>stderr := stderr ?w' @ [Warning ?E]\<rparr>)" .
  have r1: "fst (fetch_articles test_lib [''2''] [''previous'']
                (?w'\<lparr>stderr := stderr ?w' @ [Warning ?E]\<rparr>)) = [''previous'', good_article]"
    by code_simp
  have r2: "stderr (snd (fetch_articles test_lib [''2''] [''previous'']
                (?w'\<lparr>stderr := stderr ?w' @ [Warning ?E]\<rparr>))) = [Warning ?E]"
    by code_simp
  have r3: "sent (snd (fetch_articles test_lib [''2''] [''previous'']
                (?w'\<lparr>stderr := stderr ?w' @ [Warning ?E]\<rparr>))) = [ARTICLE ''1'', ARTICLE ''2'']"
    by code_simp
  have c1: "fst (fetch_articles test_lib [''1'', ''2''] [''previous''] cut_off_article)
              = [''previous'']"
    by code_simp
  have c2: "stderr (snd (fetch_articles test_lib [''1'', ''2''] [''previous''] cut_off_article)) =
       [Warning (ArticleReadError ''1''), Warning (FetchFailed ''2'')]"
    by code_simp
  have b1: "ReadString (inp listed_batch) =
       Some (''224 overview follows'' @ CRLF,
             old_line @ undated_line @ DOT_CRLF @ ''430 no such article'' @ CRLF @ good_article)"
    by code_simp
  have b2: "HasPrefix (''224 overview follows'' @ CRLF) ''224 ''" by (simp add: HasPrefix_def)
  have b3: "xover_body test_lib 0 0
        (old_line @ undated_line @ DOT_CRLF @ ''430 no such article'' @ CRLF @ good_article) [] =
       (Some [''2'', ''3''], ''430 no such article'' @ CRLF @ good_article)"
    by code_simp
  have b4: "fst (process_batch test_lib ''g'' 0 False 500 1 1000 0 1 [''previous''] listed_batch) =
       Inr (500, [''previous'', good_article])"
    by code_simp
  from f1 cont r1 r2 r3 c1 c2 b1 b2 b3 b4 show ?thesis by (simp only: simp_thms)
qed

section \<open>Bare linefeeds\<close>

lemma is_line_LF: "LF \<notin> set b \<Longrightarrow> is_line (b @ [LF])"
  by (simp add: is_line_def)

text \<open>
  Claim C4, as stated, fails: the loops compare each line with \<^verbatim>\<open>".\r\n"\<close>, so a line
  that holds a dot and a bare linefeed does not end a body. On a stream whose lines all
  end in a bare linefeed the article is never complete (the fetch fails when the stream
  ends), the dot line is copied into the article when more lines follow, and the
  listing is never complete either.
\<close>

theorem bare_LF_counterexample:
  "fst (fetchArticle test_lib
          (world0\<lparr>inp := ''220 1 <a@b> article'' @ [LF] @ ''Hello'' @ [LF] @ ''.'' @ [LF]\<rparr>) ''1'') =
     Inl (ArticleReadError ''1'')
   \<and> fst (fetchArticle test_lib
          (world0\<lparr>inp := ''220 1 <a@b> article'' @ [LF] @ ''Hello'' @ [LF] @ ''.'' @ [LF]
                            @ ''More'' @ CRLF @ DOT_CRLF\<rparr>) ''1'') =
     Inr (''220 1 <a@b> article'' @ [LF] @ ''Hello'' @ [LF] @ ''.'' @ [LF] @ ''More'' @ CRLF
            @ DOT_CRLF)
   \<and> xover_body test_lib 0 0 (''7'' @ replicate 7 TAB @ [LF] @ ''.'' @ [LF]) [] = (None, [])"
  by code_simp

text \<open>
  Claim C4, amended. \<open>ReadString\<close> ends a line at a linefeed, with or without a carriage
  return before it, so body lines that end in a bare linefeed are read as lines: an
  article or a listing made of such lines is complete when the line \<^verbatim>\<open>".\r\n"\<close> is read.
  A dot followed by a bare linefeed is an ordinary line: the article loop appends it, the
  listing loop skips it. Every article that \<^verbatim>\<open>fetchArticle\<close> returns ends with a dot
  followed by CRLF.
\<close>

theorem bare_LF_lines:
  assumes "is_line response" and "HasPrefix response ''220 ''"
    and "\<forall>l\<in>set body. is_line l \<and> l \<noteq> DOT_CRLF"
  shows "(\<forall>b rest. LF \<notin> set b \<longrightarrow> ReadString (b @ LF # rest) = Some (b @ [LF], rest))
       \<and> fetchArticle lib (w\<lparr>inp := response @ concat body @ DOT_CRLF @ rest\<rparr>) num =
           (Inr (response @ concat (map unescape body) @ DOT_CRLF),
            w\<lparr>inp := rest, sent := sent w @ [ARTICLE num]\<rparr>)
       \<and> xover_body lib days cutoff (concat body @ DOT_CRLF @ rest) [] =
           (Some (List.map_filter (xover_line lib days cutoff) body), rest)
       \<and> fetchArticle_body (''.'' @ [LF] @ rest) article =
           fetchArticle_body rest (article @ ''.'' @ [LF])
       \<and> xover_body lib days cutoff (''.'' @ [LF] @ rest) nums =
           xover_body lib days cutoff rest nums
       \<and> (\<forall>w num article w'. fetchArticle lib w num = (Inr article, w') \<longrightarrow>
             suffix DOT_CRLF article)"
proof -
  have rd: "\<forall>b rest. LF \<notin> set b \<longrightarrow> ReadString (b @ LF # rest) = Some (b @ [LF], rest)"
  proof (intro allI impI)
    fix b rest
    assume "LF \<notin> set b"
    then have "is_line (b @ [LF])" by (rule is_line_LF)
    from ReadString_line [OF this, of rest] show "ReadString (b @ LF # rest) = Some (b @ [LF], rest)"
      by simp
  qed
  have art: "fetchArticle lib (w\<lparr>inp := response @ concat body @ DOT_CRLF @ rest\<rparr>) num =
           (Inr (response @ concat (map unescape body) @ DOT_CRLF),
            w\<lparr>inp := rest, sent := sent w @ [ARTICLE num]\<rparr>)"
    using assms by (rule fetchArticle_ok)
  have lst: "xover_body lib days cutoff (concat body @ DOT_CRLF @ rest) [] =
           (Some (List.map_filter (xover_line lib days cutoff) body), rest)"
    using xover_body_lines [OF assms(3), where lib = lib and days = days and cutoff = cutoff
        and rest = rest and nums = "[]"] by simp
  have dot: "is_line (''.'' @ [LF])" "''.'' @ [LF] \<noteq> DOT_CRLF" by (simp_all add: is_line_def)
  have a4: "fetchArticle_body (''.'' @ [LF] @ rest) article =
           fetchArticle_body rest (article @ ''.'' @ [LF])"
    using fetchArticle_body_line [OF dot, where rest = rest and article = article]
    by (simp add: unescape_def HasPrefix_def)
  have "xover_line lib days cutoff (''.'' @ [LF]) = None"
    by (rule xover_line_short) simp
  then have a5: "xover_body lib days cutoff (''.'' @ [LF] @ rest) nums =
           xover_body lib days cutoff rest nums"
    using xover_body_line [OF dot, where lib = lib and days = days and cutoff = cutoff
        and rest = rest and nums = nums] by simp
  have a6: "\<forall>w num article w'. fetchArticle lib w num = (Inr article, w') \<longrightarrow>
             suffix DOT_CRLF article"
    by (blast intro: fetchArticle_ends)
  from rd art lst a4 a5 a6 show ?thesis by blast
qed

theorem bare_LF_lines_witness:
  "is_line (''220 1 <a@b> article'' @ [LF])
   \<and> HasPrefix (''220 1 <a@b> article'' @ [LF]) ''220 ''
   \<and> is_line (''Hello'' @ [LF]) \<and> ''Hello'' @ [LF] \<noteq> DOT_CRLF
   \<and> is_line (''.'' @ [LF]) \<and> ''.'' @ [LF] \<noteq> DOT_CRLF
   \<and> fetchArticle test_lib
        (world0\<lparr>inp := (''220 1 <a@b> article'' @ [LF])
                         @ concat [''Hello'' @ [LF], ''.'' @ [LF]] @ DOT_CRLF @ ''next''\<rparr>) ''1'' =
       (Inr (''220 1 <a@b> article'' @ [LF] @ ''Hello'' @ [LF] @ ''.'' @ [LF] @ DOT_CRLF),
        world0\<lparr>inp := ''next'', sent := sent world0 @ [ARTICLE ''1'']\<rparr>)
   \<and> suffix DOT_CRLF (''220 1 <a@b> article'' @ [LF] @ ''Hello'' @ [LF] @ ''.'' @ [LF] @ DOT_CRLF)
   \<and> LF \<notin> set ''Hello''
   \<and> ReadString (''Hello'' @ LF # ''next'') = Some (''Hello'' @ [LF], ''next'')"
proof -
  let ?resp = "''220 1 <a@b> article'' @ [LF]"
  let ?body = "[''Hello'' @ [LF], ''.'' @ [LF]]"
  have r: "is_line ?resp" by (simp add: is_line_def)
  have p: "HasPrefix ?resp ''220 ''" by (simp add: HasPrefix_def)
  have l: "is_line (''Hello'' @ [LF])" "''Hello'' @ [LF] \<noteq> DOT_CRLF"
    "is_line (''.'' @ [LF])" "''.'' @ [LF] \<noteq> DOT_CRLF"
    by (simp_all add: is_line_def)
  then have b: "\<forall>l\<in>set ?body. is_line l \<and> l \<noteq> DOT_CRLF" by simp
  note T = bare_LF_lines [OF r p b, where lib = test_lib and w = world0 and rest = "''next''"
      and num = "''1''"]
  have u: "concat (map unescape ?body) = ''Hello'' @ [LF] @ ''.'' @ [LF]"
    by (simp add: unescape_def HasPrefix_def)
  have art: "fetchArticle test_lib
        (world0\<lparr>inp := ?resp @ concat ?body @ DOT_CRLF @ ''next''\<rparr>) ''1'' =
       (Inr (''220 1 <a@b> article'' @ [LF] @ ''Hello'' @ [LF] @ ''.'' @ [LF] @ DOT_CRLF),
        world0\<lparr>inp := ''next'', sent := sent world0 @ [ARTICLE ''1'']\<rparr>)"
    using T [THEN conjunct2, THEN conjunct1] u by simp
  have ends: "suffix DOT_CRLF
                (''220 1 <a@b> article'' @ [LF] @ ''Hello'' @ [LF] @ ''.'' @ [LF] @ DOT_CRLF)"
    using T [THEN conjunct2, THEN conjunct2, THEN conjunct2, THEN conjunct2, THEN conjunct2,
             rule_format, OF art] .
  have n: "LF \<notin> set ''Hello''" by simp
  have rd: "ReadString (''Hello'' @ LF # ''next'') = Some (''Hello'' @ [LF], ''next'')"
    using T [THEN conjunct1, rule_format, OF n] .
  from r p l art ends n rd show ?thesis by (simp only: simp_thms)
qed

section \<open>The batches of a run\<close>

lemma xover_ranges_append: "xover_ranges (cs @ ds) = xover_ranges cs @ xover_ranges ds"
  by (induction cs rule: xover_ranges.induct) simp_all

lemma xover_ranges_ARTICLE: "xover_ranges (map ARTICLE nums) = []"
  by (induction nums) simp_all

lemma int64_batch:
  assumes "int64 batchStart" and "batchStart \<le> lastN" and "1 \<le> B" and "lastN + B < 2 ^ 63"
  shows "batch_end B lastN batchStart = min (batchStart + B - 1) lastN"
    and "wrap64 (batch_end B lastN batchStart + 1) = batch_end B lastN batchStart + 1"
    and "int64 (batch_end B lastN batchStart + 1)"
proof -
  from assms have "int64 (batchStart + B)" by (simp add: int64_def)
  then have a: "wrap64 (batchStart + B) = batchStart + B" by (rule wrap64_id)
  from assms have "int64 (batchStart + B - 1)" by (simp add: int64_def)
  then have b: "wrap64 (batchStart + B - 1) = batchStart + B - 1" by (rule wrap64_id)
  from a b show e: "batch_end B lastN batchStart = min (batchStart + B - 1) lastN"
    by (simp add: batch_end_def Let_def min_def)
  from assms show i: "int64 (batch_end B lastN batchStart + 1)"
    unfolding e by (simp add: int64_def min_def)
  then show "wrap64 (batch_end B lastN batchStart + 1) = batch_end B lastN batchStart + 1"
    by (rule wrap64_id)
qed

lemma update_bookmark_effect:
  "state (update_bookmark lib grp batchEnd w) =
     (state w)(grp \<mapsto> \<lparr>LastArticle = batchEnd, LastFetch = time_Now lib (ticks w)\<rparr>)
   \<and> ticks (update_bookmark lib grp batchEnd w) = Suc (ticks w)
   \<and> saves (update_bookmark lib grp batchEnd w) =
       saves w @ [(getStateFileName grp,
                   (state w)(grp \<mapsto> \<lparr>LastArticle = batchEnd, LastFetch = time_Now lib (ticks w)\<rparr>),
                   saveState_ok lib (length (saves w)))]
   \<and> stderr (update_bookmark lib grp batchEnd w) =
       stderr w @ (if saveState_ok lib (length (saves w)) then [] else [SaveStateFailed])"
  by (simp add: update_bookmark_def saveState_def Let_def)

lemma process_batch_cases:
  assumes "process_batch lib grp days useLatest maxBatchSize first lastN cutoff batchStart
             articles w = (r, w')"
  obtains (failed) err where "r = Inl err"
      and "sent w' = sent w @ [XOVER batchStart (batch_end maxBatchSize lastN batchStart)]"
      and "state w' = state w" and "saves w' = saves w" and "ticks w' = ticks w"
      and "stderr w' = stderr w"
    | (listed) nums articles' w2 hdr rest rest' where
        "r = Inr (batch_end maxBatchSize lastN batchStart, articles')"
      and "ReadString (inp w) = Some (hdr, rest)" and "HasPrefix hdr ''224 ''"
      and "xover_body lib days cutoff rest [] = (Some nums, rest')"
      and "fetch_articles lib nums articles
             (w\<lparr>sent := sent w @ [XOVER batchStart (batch_end maxBatchSize lastN batchStart)],
                inp := rest'\<rparr>) = (articles', w2)"
      and "w' = (if useLatest \<and> batch_end maxBatchSize lastN batchStart > first
                 then update_bookmark lib grp (batch_end maxBatchSize lastN batchStart) w2
                 else w2)"
proof -
  let ?be = "batch_end maxBatchSize lastN batchStart"
  let ?w1 = "w\<lparr>sent := sent w @ [XOVER batchStart ?be]\<rparr>"
  show thesis
  proof (cases "ReadString (inp w)")
    case None
    with assms have "r = Inl XoverHeaderReadFailed" "w' = ?w1\<lparr>inp := []\<rparr>"
      by (simp_all add: process_batch_def Let_def)
    then show ?thesis by (intro failed) simp_all
  next
    case (Some p)
    obtain hdr rest where p: "p = (hdr, rest)" by (cases p)
    show ?thesis
    proof (cases "HasPrefix hdr ''224 ''")
      case False
      with assms Some p have "r = Inl (XoverCommandFailed (TrimSpace lib hdr))"
        "w' = ?w1\<lparr>inp := rest\<rparr>"
        by (simp_all add: process_batch_def Let_def)
      then show ?thesis by (intro failed) simp_all
    next
      case True
      obtain res rest' where xb: "xover_body lib days cutoff rest [] = (res, rest')"
        by (cases "xover_body lib days cutoff rest []")
      show ?thesis
      proof (cases res)
        case None
        with assms Some p True xb have "r = Inl XoverReadFailed" "w' = ?w1\<lparr>inp := rest'\<rparr>"
          by (simp_all add: process_batch_def Let_def)
        then show ?thesis by (intro failed) simp_all
      next
        case (Some nums)
        obtain articles' w2 where fa:
          "fetch_articles lib nums articles (?w1\<lparr>inp := rest'\<rparr>) = (articles', w2)"
          by (cases "fetch_articles lib nums articles (?w1\<lparr>inp := rest'\<rparr>)")
        from assms \<open>ReadString (inp w) = Some p\<close> p True xb Some fa
        have "r = Inr (?be, articles')"
          "w' = (if useLatest \<and> ?be > first then update_bookmark lib grp ?be w2 else w2)"
          by (simp_all add: process_batch_def Let_def)
        with \<open>ReadString (inp w) = Some p\<close> p True xb Some fa show ?thesis
          by (intro listed) simp_all
      qed
    qed
  qed
qed

lemma process_batch_xovers:
  assumes "process_batch lib grp days useLatest maxBatchSize first lastN cutoff batchStart
             articles w = (r, w')"
  shows "xover_ranges (sent w') =
         xover_ranges (sent w) @ [(batchStart, batch_end maxBatchSize lastN batchStart)]"
  using assms
proof (cases rule: process_batch_cases)
  case (failed err)
  then show ?thesis by (simp add: xover_ranges_append)
next
  case (listed nums articles' w2 hdr rest rest')
  from fetch_articles_effect [OF listed(5)]
  have "sent w2 = sent w @ [XOVER batchStart (batch_end maxBatchSize lastN batchStart)]
                    @ map ARTICLE nums" by simp
  moreover have "sent w' = sent w2" using listed(6) by (simp add: update_bookmark_frame)
  ultimately show ?thesis by (simp add: xover_ranges_append xover_ranges_ARTICLE)
qed

lemma spec_batches_unfold:
  "batchStart \<le> lastN \<Longrightarrow> 1 \<le> B \<Longrightarrow>
   spec_batches B batchStart lastN =
     (batchStart, min (batchStart + B - 1) lastN)
       # spec_batches B (min (batchStart + B - 1) lastN + 1) lastN"
  by (simp add: spec_batches.simps [of B batchStart])

lemma spec_batches_empty: "\<not> (batchStart \<le> lastN \<and> 1 \<le> B) \<Longrightarrow> spec_batches B batchStart lastN = []"
  by (simp add: spec_batches.simps [of B batchStart])

lemma batch_loop_xovers:
  assumes "1 \<le> B" and "lastN + B < 2 ^ 63"
  shows "int64 batchStart \<Longrightarrow>
         batch_loop lib grp days useLatest B first lastN cutoff batchStart articles w = (r, w') \<Longrightarrow>
         \<exists>bs. xover_ranges (sent w') = xover_ranges (sent w) @ bs
              \<and> prefix bs (spec_batches B batchStart lastN)
              \<and> (\<not> listing_failed r \<longrightarrow> bs = spec_batches B batchStart lastN)"
proof (induction "length (inp w)" arbitrary: batchStart articles w rule: less_induct)
  case less
  show ?case
  proof (cases "batchStart \<le> lastN")
    case False
    with less.prems have "w' = w" "\<not> listing_failed r"
      by (auto simp: batch_loop_done split: if_splits)
    moreover from False have "spec_batches B batchStart lastN = []"
      by (simp add: spec_batches_empty)
    ultimately show ?thesis by simp
  next
    case True
    let ?be = "batch_end B lastN batchStart"
    note ex = int64_batch [OF less.prems(1) True assms]
    have unf: "spec_batches B batchStart lastN = (batchStart, ?be) # spec_batches B (?be + 1) lastN"
      using spec_batches_unfold [OF True assms(1)] ex(1) by simp
    obtain r1 w1 where pb: "process_batch lib grp days useLatest B first lastN cutoff
                batchStart articles w = (r1, w1)"
      by (cases "process_batch lib grp days useLatest B first lastN cutoff batchStart articles w")
    have x1: "xover_ranges (sent w1) = xover_ranges (sent w) @ [(batchStart, ?be)]"
      using pb by (rule process_batch_xovers)
    show ?thesis
    proof (cases r1)
      case (Inl err)
      with True pb less.prems(2) have "r = Inl err" "w' = w1" by (simp_all add: batch_loop_error)
      moreover from pb Inl have "listing_failed (Inl err)"
        using process_batch_errors [of lib grp days useLatest B first lastN cutoff batchStart
                articles w err w1]
        by auto
      ultimately show ?thesis using x1 unf by simp
    next
      case (Inr x)
      obtain batchEnd articles' where x: "x = (batchEnd, articles')" by (cases x)
      from pb Inr x have be: "batchEnd = ?be" by (cases rule: process_batch_cases) simp_all
      from pb Inr x have sh: "length (inp w1) < length (inp w)" by (auto dest: process_batch_inp)
      from True pb Inr x less.prems(2) be ex(2)
      have "batch_loop lib grp days useLatest B first lastN cutoff (?be + 1) articles' w1 = (r, w')"
        by (simp add: batch_loop_step)
      from less.hyps [OF sh ex(3) this] obtain bs where
        bs: "xover_ranges (sent w') = xover_ranges (sent w1) @ bs"
          "prefix bs (spec_batches B (?be + 1) lastN)"
          "\<not> listing_failed r \<longrightarrow> bs = spec_batches B (?be + 1) lastN"
        by blast
      from bs x1 unf
      have "xover_ranges (sent w') = xover_ranges (sent w) @ ((batchStart, ?be) # bs)
            \<and> prefix ((batchStart, ?be) # bs) (spec_batches B batchStart lastN)
            \<and> (\<not> listing_failed r \<longrightarrow> (batchStart, ?be) # bs = spec_batches B batchStart lastN)"
        by simp
      then show ?thesis by blast
    qed
  qed
qed

text \<open>The tiling properties of the specification's batches.\<close>

lemma spec_batches_bounds:
  "(a, b) \<in> set (spec_batches B s l) \<Longrightarrow> s \<le> a \<and> a \<le> b \<and> b \<le> l \<and> b - a + 1 \<le> B"
proof (induction B s l rule: spec_batches.induct)
  case (1 B s l)
  show ?case
  proof (cases "s \<le> l \<and> 1 \<le> B")
    case False
    with "1.prems" show ?thesis by (simp add: spec_batches_empty)
  next
    case True
    with "1.prems" have "(a, b) = (s, min (s + B - 1) l)
        \<or> (a, b) \<in> set (spec_batches B (min (s + B - 1) l + 1) l)"
      by (simp add: spec_batches_unfold)
    then show ?thesis
    proof
      assume "(a, b) = (s, min (s + B - 1) l)"
      with True show ?thesis by auto
    next
      assume "(a, b) \<in> set (spec_batches B (min (s + B - 1) l + 1) l)"
      from "1.IH" [OF True this] True show ?thesis by auto
    qed
  qed
qed

lemma spec_batches_hd:
  "s \<le> l \<Longrightarrow> 1 \<le> B \<Longrightarrow> spec_batches B s l \<noteq> [] \<and> fst (hd (spec_batches B s l)) = s"
  by (simp add: spec_batches_unfold)

lemma spec_batches_contiguous:
  "successively (\<lambda>p q. fst q = snd p + 1) (spec_batches B s l)"
proof (induction B s l rule: spec_batches.induct)
  case (1 B s l)
  show ?case
  proof (cases "s \<le> l \<and> 1 \<le> B")
    case False
    then show ?thesis by (simp add: spec_batches_empty)
  next
    case True
    let ?e = "min (s + B - 1) l"
    have unf: "spec_batches B s l = (s, ?e) # spec_batches B (?e + 1) l"
      using True by (simp add: spec_batches_unfold)
    show ?thesis
    proof (cases "?e + 1 \<le> l")
      case False
      then have "spec_batches B (?e + 1) l = []" by (simp add: spec_batches_empty)
      with unf show ?thesis by simp
    next
      case le: True
      with True spec_batches_hd [of "?e + 1" l B]
      obtain q qs where q: "spec_batches B (?e + 1) l = q # qs" "fst q = ?e + 1"
        by (cases "spec_batches B (?e + 1) l") auto
      with "1.IH" [OF True] unf show ?thesis by simp
    qed
  qed
qed

lemma spec_batches_ascending:
  "sorted_wrt (\<lambda>p q. snd p < fst q) (spec_batches B s l)"
proof (induction B s l rule: spec_batches.induct)
  case (1 B s l)
  show ?case
  proof (cases "s \<le> l \<and> 1 \<le> B")
    case False
    then show ?thesis by (simp add: spec_batches_empty)
  next
    case True
    let ?e = "min (s + B - 1) l"
    have unf: "spec_batches B s l = (s, ?e) # spec_batches B (?e + 1) l"
      using True by (simp add: spec_batches_unfold)
    have "\<forall>q\<in>set (spec_batches B (?e + 1) l). ?e < fst q"
    proof
      fix q
      assume "q \<in> set (spec_batches B (?e + 1) l)"
      then have "(fst q, snd q) \<in> set (spec_batches B (?e + 1) l)" by simp
      from spec_batches_bounds [OF this] show "?e < fst q" by simp
    qed
    moreover have "sorted_wrt (\<lambda>p q. snd p < fst q) (spec_batches B (?e + 1) l)"
      using "1.IH" [OF True] .
    ultimately show ?thesis unfolding unf by simp
  qed
qed

lemma spec_batches_union:
  "1 \<le> B \<Longrightarrow> (\<Union>(a, b)\<in>set (spec_batches B s l). {a..b}) = {s..l}"
proof (induction B s l rule: spec_batches.induct)
  case (1 B s l)
  show ?case
  proof (cases "s \<le> l")
    case False
    then show ?thesis by (simp add: spec_batches_empty)
  next
    case True
    let ?e = "min (s + B - 1) l"
    have unf: "spec_batches B s l = (s, ?e) # spec_batches B (?e + 1) l"
      using True "1.prems" by (simp add: spec_batches_unfold)
    have "(\<Union>(a, b)\<in>set (spec_batches B (?e + 1) l). {a..b}) = {?e + 1..l}"
      using "1.IH" True "1.prems" by simp
    moreover have "{s..?e} \<union> {?e + 1..l} = {s..l}" using True "1.prems" by auto
    ultimately show ?thesis unfolding unf by simp
  qed
qed

lemma spec_batches_last:
  "s \<le> l \<Longrightarrow> 1 \<le> B \<Longrightarrow> snd (last (spec_batches B s l)) = l"
proof (induction B s l rule: spec_batches.induct)
  case (1 B s l)
  let ?e = "min (s + B - 1) l"
  have unf: "spec_batches B s l = (s, ?e) # spec_batches B (?e + 1) l"
    using "1.prems" by (simp add: spec_batches_unfold)
  show ?case
  proof (cases "?e + 1 \<le> l")
    case False
    then have "spec_batches B (?e + 1) l = []" by (simp add: spec_batches_empty)
    with unf False show ?thesis by (simp add: min_def split: if_splits)
  next
    case True
    with "1.IH" "1.prems" have "snd (last (spec_batches B (?e + 1) l)) = l" by simp
    moreover from True "1.prems" have "spec_batches B (?e + 1) l \<noteq> []"
      using spec_batches_hd [of "?e + 1" l B] by simp
    ultimately show ?thesis unfolding unf by simp
  qed
qed

lemma spec_batches_example: "spec_batches 500 1 1200 = [(1, 500), (501, 1000), (1001, 1200)]"
  by code_simp

text \<open>
  Claim C1, as stated, fails where the 64-bit addition of line 169 wraps around. With
  the range \<open>(2, 1200)\<close> and the batch size \<open>2\<^sup>6\<^sup>3 - 1\<close> the sum \<open>batchStart +
  maxBatchSize\<close> wraps to a negative number, which is not clamped to \<open>last\<close>: the run
  lists three batches, \<open>[2, -2\<^sup>6\<^sup>3]\<close>, \<open>[-2\<^sup>6\<^sup>3 + 1, -1]\<close> and \<open>[0, 1200]\<close>, where the
  claim promises the single batch \<open>[2, 1200]\<close>.
\<close>

theorem batches_wrap_counterexample:
  "(2 :: int) \<le> 1200 \<and> (1 :: int) \<le> 9223372036854775807
   \<and> fst (getRecentArticles test_lib (listings_world ''211 1199 2 1200 g'' 3) ''g'' 0 False
            9223372036854775807) = Inl NoArticlesFound
   \<and> xover_ranges (sent (snd (getRecentArticles test_lib (listings_world ''211 1199 2 1200 g'' 3)
                                 ''g'' 0 False 9223372036854775807))) =
       [(2, - 9223372036854775808), (- 9223372036854775807, - 1), (0, 1200)]
   \<and> spec_batches 9223372036854775807 2 1200 = [(2, 1200)]
   \<and> xover_ranges (sent (snd (getRecentArticles test_lib (listings_world ''211 1199 2 1200 g'' 3)
                                 ''g'' 0 False 9223372036854775807))) \<noteq>
       spec_batches 9223372036854775807 2 1200"
  by code_simp

text \<open>
  Claim C1, amended: for \<open>first \<le> last\<close>, \<open>B \<ge> 1\<close> and \<open>last + B < 2\<^sup>6\<^sup>3\<close> (no addition of
  the loop wraps around). The ranges of the listing commands that the batch loop sends
  are a prefix of the specification's batches, and all of them unless a listing exchange
  fails. Those batches begin with \<open>[first, min (first + B - 1) last]\<close>, each next one
  starts right after the one before (contiguous), they ascend without overlap, each holds
  at most \<open>B\<close> numbers, their union is \<open>[first, last]\<close>, and for \<open>(1, 1200)\<close> with
  \<open>B = 500\<close> they are \<open>[1, 500]\<close>, \<open>[501, 1000]\<close>, \<open>[1001, 1200]\<close>.
\<close>

theorem batches_tile_range:
  assumes "first \<le> lastN" and "1 \<le> B" and "int64 first" and "lastN + B < 2 ^ 63"
  shows "(\<exists>bs. xover_ranges (sent (snd (batch_loop lib grp days useLatest B first lastN cutoff
                                          first articles w))) = xover_ranges (sent w) @ bs
              \<and> prefix bs (spec_batches B first lastN)
              \<and> (\<not> listing_failed (fst (batch_loop lib grp days useLatest B first lastN cutoff
                                          first articles w)) \<longrightarrow>
                   bs = spec_batches B first lastN))
       \<and> spec_batches B first lastN =
           (first, min (first + B - 1) lastN)
             # spec_batches B (min (first + B - 1) lastN + 1) lastN
       \<and> successively (\<lambda>p q. fst q = snd p + 1) (spec_batches B first lastN)
       \<and> sorted_wrt (\<lambda>p q. snd p < fst q) (spec_batches B first lastN)
       \<and> (\<forall>(a, b)\<in>set (spec_batches B first lastN). a \<le> b \<and> b - a + 1 \<le> B)
       \<and> (\<Union>(a, b)\<in>set (spec_batches B first lastN). {a..b}) = {first..lastN}
       \<and> fst (hd (spec_batches B first lastN)) = first
       \<and> snd (last (spec_batches B first lastN)) = lastN
       \<and> spec_batches 500 1 1200 = [(1, 500), (501, 1000), (1001, 1200)]"
proof -
  obtain r w' where run: "batch_loop lib grp days useLatest B first lastN cutoff first articles w
                            = (r, w')"
    by (cases "batch_loop lib grp days useLatest B first lastN cutoff first articles w")
  from batch_loop_xovers [OF assms(2,4,3) run]
  have engine: "\<exists>bs. xover_ranges (sent (snd (batch_loop lib grp days useLatest B first lastN cutoff
                                          first articles w))) = xover_ranges (sent w) @ bs
              \<and> prefix bs (spec_batches B first lastN)
              \<and> (\<not> listing_failed (fst (batch_loop lib grp days useLatest B first lastN cutoff
                                          first articles w)) \<longrightarrow>
                   bs = spec_batches B first lastN)"
    by (simp add: run)
  have unf: "spec_batches B first lastN =
           (first, min (first + B - 1) lastN)
             # spec_batches B (min (first + B - 1) lastN + 1) lastN"
    using assms(1,2) by (rule spec_batches_unfold)
  have sizes: "\<forall>(a, b)\<in>set (spec_batches B first lastN). a \<le> b \<and> b - a + 1 \<le> B"
    using spec_batches_bounds by blast
  have ends: "fst (hd (spec_batches B first lastN)) = first"
    "snd (last (spec_batches B first lastN)) = lastN"
    using spec_batches_hd [OF assms(1,2)] spec_batches_last [OF assms(1,2)] by simp_all
  from engine unf spec_batches_contiguous [of B first lastN]
    spec_batches_ascending [of B first lastN] sizes spec_batches_union [OF assms(2), of first lastN]
    ends spec_batches_example
  show ?thesis by blast
qed

theorem batches_tile_range_witness:
  "(1 :: int) \<le> 1200 \<and> (1 :: int) \<le> 500 \<and> int64 1 \<and> (1200 :: int) + 500 < 2 ^ 63
   \<and> fst (batch_loop test_lib ''g'' 0 False 500 1 1200 0 1 []
            (world0\<lparr>inp := concat (replicate 3 empty_listing)\<rparr>)) = Inl NoArticlesFound
   \<and> \<not> listing_failed (fst (batch_loop test_lib ''g'' 0 False 500 1 1200 0 1 []
            (world0\<lparr>inp := concat (replicate 3 empty_listing)\<rparr>)))
   \<and> xover_ranges (sent (snd (batch_loop test_lib ''g'' 0 False 500 1 1200 0 1 []
            (world0\<lparr>inp := concat (replicate 3 empty_listing)\<rparr>)))) =
       [(1, 500), (501, 1000), (1001, 1200)]
   \<and> xover_ranges (sent (snd (getRecentArticles test_lib (listings_world ''211 1200 1 1200 g'' 3)
                                 ''g'' 0 False 500))) =
       [(1, 500), (501, 1000), (1001, 1200)]"
proof -
  let ?w = "world0\<lparr>inp := concat (replicate 3 empty_listing)\<rparr>"
  have h: "(1 :: int) \<le> 1200" "(1 :: int) \<le> 500" "int64 1" "(1200 :: int) + 500 < 2 ^ 63"
    by (simp_all add: int64_def)
  note T = batches_tile_range [OF h, where lib = test_lib and grp = "''g''" and days = 0
      and useLatest = False and cutoff = 0 and articles = "[]" and w = ?w]
  have r: "fst (batch_loop test_lib ''g'' 0 False 500 1 1200 0 1 [] ?w) = Inl NoArticlesFound"
    by code_simp
  then have nf: "\<not> listing_failed (fst (batch_loop test_lib ''g'' 0 False 500 1 1200 0 1 [] ?w))"
    by simp
  have s0: "xover_ranges (sent ?w) = []" by (simp add: world0_def)
  from T [THEN conjunct1] nf s0
  have e: "xover_ranges (sent (snd (batch_loop test_lib ''g'' 0 False 500 1 1200 0 1 [] ?w))) =
        spec_batches 500 1 1200"
    by auto
  from T have ex: "spec_batches 500 1 1200 = [(1, 500), (501, 1000), (1001, 1200)]"
    by blast
  have x: "xover_ranges (sent (snd (batch_loop test_lib ''g'' 0 False 500 1 1200 0 1 [] ?w))) =
        [(1, 500), (501, 1000), (1001, 1200)]"
    using e unfolding ex .
  have g: "xover_ranges (sent (snd (getRecentArticles test_lib
             (listings_world ''211 1200 1 1200 g'' 3) ''g'' 0 False 500))) =
       [(1, 500), (501, 1000), (1001, 1200)]"
    by code_simp
  from h r nf x g show ?thesis by (simp only: simp_thms)
qed

section \<open>The bookmark\<close>

lemma process_batch_bookmark:
  assumes "process_batch lib grp days useLatest B first lastN cutoff batchStart articles w
             = (Inr (batchEnd, articles'), w')"
  shows "batchEnd = batch_end B lastN batchStart
       \<and> (useLatest \<and> batchEnd > first \<longrightarrow>
           state w' = (state w)(grp \<mapsto> \<lparr>LastArticle = batchEnd,
                                          LastFetch = time_Now lib (ticks w)\<rparr>)
           \<and> saves w' = saves w @ [(getStateFileName grp, state w',
                                      saveState_ok lib (length (saves w)))]
           \<and> ticks w' = Suc (ticks w)
           \<and> (\<exists>errs. stderr w' = stderr w @ map Warning errs
                  @ (if saveState_ok lib (length (saves w)) then [] else [SaveStateFailed])))
       \<and> (\<not> (useLatest \<and> batchEnd > first) \<longrightarrow>
           state w' = state w \<and> saves w' = saves w \<and> ticks w' = ticks w)"
  using assms
proof (cases rule: process_batch_cases)
  case (failed err)
  then show ?thesis by simp
next
  case (listed nums arts w2 hdr rest rest')
  note eff = fetch_articles_effect [OF listed(5)]
  from listed(1) have be: "batchEnd = batch_end B lastN batchStart" by simp
  from eff obtain errs where errs: "stderr w2 = stderr w @ map Warning errs" by auto
  from eff have fr: "state w2 = state w" "ticks w2 = ticks w" "saves w2 = saves w" by simp_all
  show ?thesis
  proof (cases "useLatest \<and> batchEnd > first")
    case True
    with listed(6) be have w': "w' = update_bookmark lib grp batchEnd w2" by simp
    have "stderr w' = stderr w @ map Warning errs
                  @ (if saveState_ok lib (length (saves w)) then [] else [SaveStateFailed])"
      unfolding w' using errs fr by (simp add: update_bookmark_effect)
    then have "\<exists>errs. stderr w' = stderr w @ map Warning errs
                  @ (if saveState_ok lib (length (saves w)) then [] else [SaveStateFailed])"
      by blast
    moreover have "state w' = (state w)(grp \<mapsto> \<lparr>LastArticle = batchEnd,
                                          LastFetch = time_Now lib (ticks w)\<rparr>)"
      "saves w' = saves w @ [(getStateFileName grp, state w',
                                      saveState_ok lib (length (saves w)))]"
      "ticks w' = Suc (ticks w)"
      unfolding w' using fr by (simp_all add: update_bookmark_effect)
    ultimately show ?thesis using True be by blast
  next
    case False
    with listed(6) be have "w' = w2" by auto
    with fr be False show ?thesis by simp
  qed
qed

lemma first_batch_only:
  assumes "1 \<le> B" and "lastN + B < 2 ^ 63" and "int64 first" and "first \<le> batchStart"
    and "batchStart \<le> lastN"
  shows "(batch_end B lastN batchStart > first) =
         (\<not> (batchStart = first \<and> batch_end B lastN batchStart = first))"
proof -
  from assms have "int64 batchStart" by (simp add: int64_def)
  from int64_batch(1) [OF this assms(5,1,2)] assms show ?thesis by (auto simp: min_def)
qed

text \<open>
  Claim C7, as stated, fails in its consequence "the record is not persisted exactly
  when the first batch's end equals the range start": where the addition of line 169
  wraps around, the first batch's end is below the range's start and the record is not
  persisted either. In resume mode, with the range \<open>(2, 1200)\<close> and the batch size
  \<open>2\<^sup>6\<^sup>3 - 1\<close>, the first batch ends at \<open>-2\<^sup>6\<^sup>3\<close>, which is not the range's start, and
  nothing is saved after it.
\<close>

theorem bookmark_counterexample:
  "(1 :: int) \<le> 9223372036854775807
   \<and> fst (process_batch test_lib ''g'' 0 True 9223372036854775807 2 1200 0 2 []
            (world0\<lparr>inp := empty_listing\<rparr>)) = Inr (- 9223372036854775808, [])
   \<and> length (saves (snd (process_batch test_lib ''g'' 0 True 9223372036854775807 2 1200 0 2 []
            (world0\<lparr>inp := empty_listing\<rparr>)))) = 0
   \<and> (- 9223372036854775808 :: int) \<noteq> 2
   \<and> xover_ranges (sent (snd (getRecentArticles test_lib (listings_world ''211 1199 2 1200 g'' 1)
                                 ''g'' 0 True 9223372036854775807))) =
       [(2, - 9223372036854775808), (- 9223372036854775807, - 1)]
   \<and> length (saves (snd (getRecentArticles test_lib (listings_world ''211 1199 2 1200 g'' 1)
                                 ''g'' 0 True 9223372036854775807))) = 0"
  by code_simp

text \<open>
  Claim C7, amended. A batch that was processed to its end \<open>batchEnd\<close> updates the
  table and calls \<^verbatim>\<open>saveState\<close> with \<open>{LastArticle = batchEnd, LastFetch = now}\<close> if
  and only if resume mode is on and \<open>batchEnd > first\<close>, where \<open>first\<close> is the start
  of the whole range after the resume adjustment; otherwise table, file and clock are
  untouched. A failed save writes a warning and the loop goes on with the next batch.
  For \<open>B \<ge> 1\<close> and \<open>last + B < 2\<^sup>6\<^sup>3\<close> (no wrap-around), \<open>batchEnd > first\<close> fails exactly
  when the batch is the first one and its end equals the range's start.
\<close>

theorem bookmark_update:
  assumes "process_batch lib grp days useLatest B first lastN cutoff batchStart articles w
             = (Inr (batchEnd, articles'), w')"
  shows "batchEnd = batch_end B lastN batchStart
       \<and> (useLatest \<and> batchEnd > first \<longrightarrow>
           state w' = (state w)(grp \<mapsto> \<lparr>LastArticle = batchEnd,
                                          LastFetch = time_Now lib (ticks w)\<rparr>)
           \<and> saves w' = saves w @ [(getStateFileName grp, state w',
                                      saveState_ok lib (length (saves w)))]
           \<and> ticks w' = Suc (ticks w))
       \<and> (\<not> (useLatest \<and> batchEnd > first) \<longrightarrow>
           state w' = state w \<and> saves w' = saves w \<and> ticks w' = ticks w)
       \<and> (useLatest \<and> batchEnd > first \<and> \<not> saveState_ok lib (length (saves w)) \<longrightarrow>
           (\<exists>msgs. stderr w' = stderr w @ msgs @ [SaveStateFailed]))
       \<and> (batchStart \<le> lastN \<longrightarrow>
           batch_loop lib grp days useLatest B first lastN cutoff batchStart articles w =
           batch_loop lib grp days useLatest B first lastN cutoff (wrap64 (batchEnd + 1))
             articles' w')
       \<and> (1 \<le> B \<and> lastN + B < 2 ^ 63 \<and> int64 first \<and> first \<le> batchStart
            \<and> batchStart \<le> lastN \<longrightarrow>
           (batchEnd > first) = (\<not> (batchStart = first \<and> batchEnd = first)))"
proof -
  note bm = process_batch_bookmark [OF assms]
  have be: "batchEnd = batch_end B lastN batchStart" using bm by blast
  have saved: "useLatest \<and> batchEnd > first \<longrightarrow>
           state w' = (state w)(grp \<mapsto> \<lparr>LastArticle = batchEnd,
                                          LastFetch = time_Now lib (ticks w)\<rparr>)
           \<and> saves w' = saves w @ [(getStateFileName grp, state w',
                                      saveState_ok lib (length (saves w)))]
           \<and> ticks w' = Suc (ticks w)"
    using bm by blast
  have skipped: "\<not> (useLatest \<and> batchEnd > first) \<longrightarrow>
           state w' = state w \<and> saves w' = saves w \<and> ticks w' = ticks w"
    using bm by blast
  have logged: "useLatest \<and> batchEnd > first \<and> \<not> saveState_ok lib (length (saves w)) \<longrightarrow>
           (\<exists>msgs. stderr w' = stderr w @ msgs @ [SaveStateFailed])"
  proof
    assume h: "useLatest \<and> batchEnd > first \<and> \<not> saveState_ok lib (length (saves w))"
    with bm obtain errs where "stderr w' = stderr w @ map Warning errs
                  @ (if saveState_ok lib (length (saves w)) then [] else [SaveStateFailed])"
      by blast
    with h have "stderr w' = stderr w @ map Warning errs @ [SaveStateFailed]" by simp
    then show "\<exists>msgs. stderr w' = stderr w @ msgs @ [SaveStateFailed]" by blast
  qed
  have goes_on: "batchStart \<le> lastN \<longrightarrow>
           batch_loop lib grp days useLatest B first lastN cutoff batchStart articles w =
           batch_loop lib grp days useLatest B first lastN cutoff (wrap64 (batchEnd + 1))
             articles' w'"
    using assms by (simp add: batch_loop_step)
  have gloss: "1 \<le> B \<and> lastN + B < 2 ^ 63 \<and> int64 first \<and> first \<le> batchStart
            \<and> batchStart \<le> lastN \<longrightarrow>
           (batchEnd > first) = (\<not> (batchStart = first \<and> batchEnd = first))"
    unfolding be using first_batch_only [of B lastN first batchStart] by blast
  from be saved skipped logged goes_on gloss show ?thesis by blast
qed

theorem bookmark_update_witness:
  "fst (process_batch test_lib ''g'' 0 True 500 1 1200 0 1 [] (world0\<lparr>inp := empty_listing\<rparr>)) =
     Inr (500, [])
   \<and> (500 :: int) > 1
   \<and> state (snd (process_batch test_lib ''g'' 0 True 500 1 1200 0 1 []
                   (world0\<lparr>inp := empty_listing\<rparr>))) ''g'' =
       Some \<lparr>LastArticle = 500, LastFetch = 259200\<rparr>
   \<and> length (saves (snd (process_batch test_lib ''g'' 0 True 500 1 1200 0 1 []
                   (world0\<lparr>inp := empty_listing\<rparr>)))) = 1
   \<and> ticks (snd (process_batch test_lib ''g'' 0 True 500 1 1200 0 1 []
                   (world0\<lparr>inp := empty_listing\<rparr>))) = 1
   \<and> fst (process_batch failing_lib ''g'' 0 True 500 1 1200 0 1 [] (world0\<lparr>inp := empty_listing\<rparr>)) =
       Inr (500, [])
   \<and> \<not> saveState_ok failing_lib (length (saves (world0\<lparr>inp := empty_listing\<rparr>)))
   \<and> stderr (snd (process_batch failing_lib ''g'' 0 True 500 1 1200 0 1 []
                   (world0\<lparr>inp := empty_listing\<rparr>))) = [SaveStateFailed]
   \<and> fst (process_batch test_lib ''g'' 0 True 1 1 1200 0 1 [] (world0\<lparr>inp := empty_listing\<rparr>)) =
       Inr (1, [])
   \<and> \<not> (1 :: int) > 1
   \<and> length (saves (snd (process_batch test_lib ''g'' 0 True 1 1 1200 0 1 []
                   (world0\<lparr>inp := empty_listing\<rparr>)))) = 0
   \<and> (1 :: int) \<le> 500 \<and> (1200 :: int) + 500 < 2 ^ 63 \<and> int64 1 \<and> (1 :: int) \<le> 1200
   \<and> xover_ranges (sent (snd (getRecentArticles failing_lib
         (listings_world ''211 1200 1 1200 g'' 3) ''g'' 0 True 500))) =
       [(1, 500), (501, 1000), (1001, 1200)]"
proof -
  let ?w = "world0\<lparr>inp := empty_listing\<rparr>"
  let ?a = "process_batch test_lib ''g'' 0 True 500 1 1200 0 1 [] ?w"
  let ?b = "process_batch failing_lib ''g'' 0 True 500 1 1200 0 1 [] ?w"
  let ?c = "process_batch test_lib ''g'' 0 True 1 1 1200 0 1 [] ?w"
  have fa: "fst ?a = Inr (500, [])" by code_simp
  then have a: "?a = (Inr (500, []), snd ?a)" by (simp add: prod_eq_iff)
  have fb: "fst ?b = Inr (500, [])" by code_simp
  then have b: "?b = (Inr (500, []), snd ?b)" by (simp add: prod_eq_iff)
  have fc: "fst ?c = Inr (1, [])" by code_simp
  then have c: "?c = (Inr (1, []), snd ?c)" by (simp add: prod_eq_iff)
  note A = bookmark_update [OF a]
  note B = bookmark_update [OF b]
  note C = bookmark_update [OF c]
  have gt: "(500 :: int) > 1" by simp
  have w0: "state ?w = Map.empty" "saves ?w = []" "ticks ?w = 0" "stderr ?w = []"
    by (simp_all add: world0_def)
  have now: "time_Now test_lib 0 = 259200" by (simp add: test_lib_def)
  from A gt have "state (snd ?a) = (state ?w)(''g'' \<mapsto> \<lparr>LastArticle = 500,
                     LastFetch = time_Now test_lib (ticks ?w)\<rparr>)
                  \<and> saves (snd ?a) = saves ?w @ [(getStateFileName ''g'', state (snd ?a),
                                      saveState_ok test_lib (length (saves ?w)))]
                  \<and> ticks (snd ?a) = Suc (ticks ?w)"
    by blast
  then have a1: "state (snd ?a) ''g'' = Some \<lparr>LastArticle = 500, LastFetch = 259200\<rparr>"
    and a2: "length (saves (snd ?a)) = 1" and a3: "ticks (snd ?a) = 1"
    by (simp_all add: w0 now)
  have nok: "\<not> saveState_ok failing_lib (length (saves ?w))" by (simp add: failing_lib_def)
  from B gt nok obtain msgs where "stderr (snd ?b) = stderr ?w @ msgs @ [SaveStateFailed]"
    by blast
  moreover have "length (stderr (snd ?b)) = 1" by code_simp
  ultimately have b1: "stderr (snd ?b) = [SaveStateFailed]" by (simp add: w0)
  have ngt: "\<not> (1 :: int) > 1" by simp
  from C ngt have "saves (snd ?c) = saves ?w" by blast
  then have c1: "length (saves (snd ?c)) = 0" by (simp add: w0)
  have h: "(1 :: int) \<le> 500" "(1200 :: int) + 500 < 2 ^ 63" "int64 1" "(1 :: int) \<le> 1200"
    by (simp_all add: int64_def)
  have g: "xover_ranges (sent (snd (getRecentArticles failing_lib
         (listings_world ''211 1200 1 1200 g'' 3) ''g'' 0 True 500))) =
       [(1, 500), (501, 1000), (1001, 1200)]"
    by code_simp
  from fa gt a1 a2 a3 fb nok b1 fc ngt c1 h g show ?thesis by (simp only: simp_thms)
qed

section \<open>The saved positions\<close>

lemma saved_articles_append:
  "saved_articles grp (xs @ ys) = saved_articles grp xs @ saved_articles grp ys"
  by (induction xs rule: saved_articles.induct) simp_all

lemma process_batch_saved:
  assumes "process_batch lib grp days useLatest B first lastN cutoff batchStart articles w
             = (r, w')"
  shows "\<exists>new. saved_articles grp (saves w') = saved_articles grp (saves w) @ new
              \<and> (new = [] \<or> new = [batch_end B lastN batchStart]
                               \<and> first < batch_end B lastN batchStart)"
proof (cases r)
  case (Inl err)
  with assms have "saves w' = saves w" by (cases rule: process_batch_cases) simp_all
  then show ?thesis by simp
next
  case (Inr x)
  obtain batchEnd articles' where x: "x = (batchEnd, articles')" by (cases x)
  note bm = process_batch_bookmark [OF assms [unfolded Inr x]]
  then have be: "batchEnd = batch_end B lastN batchStart" by blast
  show ?thesis
  proof (cases "useLatest \<and> batchEnd > first")
    case False
    with bm have "saves w' = saves w" by blast
    then show ?thesis by simp
  next
    case True
    with bm have st: "state w' = (state w)(grp \<mapsto> \<lparr>LastArticle = batchEnd,
                                          LastFetch = time_Now lib (ticks w)\<rparr>)"
      and sv: "saves w' = saves w @ [(getStateFileName grp, state w',
                                      saveState_ok lib (length (saves w)))]"
      by blast+
    from st sv have "saved_articles grp (saves w') =
        saved_articles grp (saves w) @ (if saveState_ok lib (length (saves w)) then [batchEnd] else [])"
      by (simp add: saved_articles_append)
    with True be show ?thesis by auto
  qed
qed

lemma process_batch_saved_resume:
  assumes "process_batch lib grp days useLatest B first lastN cutoff batchStart articles w
             = (r, w')"
  shows "\<exists>new. saved_articles grp (saves w') = saved_articles grp (saves w) @ new
              \<and> (new = [] \<or> new = [batch_end B lastN batchStart] \<and> useLatest
                               \<and> first < batch_end B lastN batchStart)"
proof (cases "useLatest")
  case True
  with process_batch_saved [OF assms] show ?thesis by simp
next
  case False
  have "saves w' = saves w"
  proof (cases r)
    case (Inl err)
    with assms show ?thesis by (cases rule: process_batch_cases) simp_all
  next
    case (Inr x)
    obtain batchEnd articles' where x: "x = (batchEnd, articles')" by (cases x)
    from process_batch_bookmark [OF assms [unfolded Inr x]] False show ?thesis by blast
  qed
  then show ?thesis by simp
qed

lemma batch_loop_saved:
  "batch_loop lib grp days useLatest B first lastN cutoff batchStart articles w = (r, w') \<Longrightarrow>
   \<exists>new. saved_articles grp (saves w') = saved_articles grp (saves w) @ new
        \<and> (\<forall>v\<in>set new. first < v \<and> useLatest)
        \<and> (1 \<le> B \<and> lastN + B < 2 ^ 63 \<and> int64 batchStart \<longrightarrow>
             sorted_wrt (<) new \<and> (\<forall>v\<in>set new. batchStart \<le> v))"
proof (induction "length (inp w)" arbitrary: batchStart articles w rule: less_induct)
  case less
  show ?case
  proof (cases "batchStart \<le> lastN")
    case False
    with less.prems have "w' = w" by (auto simp: batch_loop_done split: if_splits)
    then show ?thesis by simp
  next
    case True
    let ?be = "batch_end B lastN batchStart"
    obtain r1 w1 where pb: "process_batch lib grp days useLatest B first lastN cutoff
                batchStart articles w = (r1, w1)"
      by (cases "process_batch lib grp days useLatest B first lastN cutoff batchStart articles w")
    from process_batch_saved_resume [OF pb] obtain new1 where
      n1: "saved_articles grp (saves w1) = saved_articles grp (saves w) @ new1"
        "new1 = [] \<or> new1 = [?be] \<and> useLatest \<and> first < ?be"
      by blast
    have ge: "1 \<le> B \<and> lastN + B < 2 ^ 63 \<and> int64 batchStart \<Longrightarrow> batchStart \<le> ?be"
      using int64_batch(1) [of batchStart lastN B] True by (simp add: min_def)
    show ?thesis
    proof (cases r1)
      case (Inl err)
      with True pb less.prems have "w' = w1" by (simp add: batch_loop_error)
      with n1 ge show ?thesis by auto
    next
      case (Inr x)
      obtain batchEnd articles' where x: "x = (batchEnd, articles')" by (cases x)
      from pb Inr x have be: "batchEnd = ?be" by (cases rule: process_batch_cases) simp_all
      from pb Inr x have sh: "length (inp w1) < length (inp w)" by (auto dest: process_batch_inp)
      from True pb Inr x less.prems be
      have "batch_loop lib grp days useLatest B first lastN cutoff (wrap64 (?be + 1)) articles' w1
              = (r, w')"
        by (simp add: batch_loop_step)
      from less.hyps [OF sh this] obtain new2 where
        n2: "saved_articles grp (saves w') = saved_articles grp (saves w1) @ new2"
          "\<forall>v\<in>set new2. first < v \<and> useLatest"
          "1 \<le> B \<and> lastN + B < 2 ^ 63 \<and> int64 (wrap64 (?be + 1)) \<longrightarrow>
             sorted_wrt (<) new2 \<and> (\<forall>v\<in>set new2. wrap64 (?be + 1) \<le> v)"
        by blast
      have app: "saved_articles grp (saves w') = saved_articles grp (saves w) @ (new1 @ new2)"
        using n1(1) n2(1) by simp
      have above: "\<forall>v\<in>set (new1 @ new2). first < v \<and> useLatest"
        using n1(2) n2(2) by auto
      have sorted: "1 \<le> B \<and> lastN + B < 2 ^ 63 \<and> int64 batchStart \<longrightarrow>
             sorted_wrt (<) (new1 @ new2) \<and> (\<forall>v\<in>set (new1 @ new2). batchStart \<le> v)"
      proof
        assume h: "1 \<le> B \<and> lastN + B < 2 ^ 63 \<and> int64 batchStart"
        then have ex: "wrap64 (?be + 1) = ?be + 1" "int64 (?be + 1)"
          using int64_batch(2,3) [of batchStart lastN B] True by simp_all
        with n2(3) h have s2: "sorted_wrt (<) new2" "\<forall>v\<in>set new2. ?be + 1 \<le> v" by simp_all
        from ge [OF h] have "batchStart \<le> ?be" .
        with s2 n1(2) show "sorted_wrt (<) (new1 @ new2) \<and> (\<forall>v\<in>set (new1 @ new2). batchStart \<le> v)"
          by (auto simp: sorted_wrt_append)
      qed
      from app above sorted show ?thesis by blast
    qed
  qed
qed


lemma resume_adjust_above:
  assumes "resume_adjust True (Some sv) first lastN = (Some first', msgs)"
    and "int64 first" and "int64 lastN"
  shows "LastArticle sv < first' \<and> int64 first'"
proof (cases "first \<le> LastArticle sv")
  case True
  from assms(1) have lt: "LastArticle sv < lastN"
    by (auto simp: resume_adjust_def Let_def split: if_splits)
  with True assms(2,3) have "int64 (LastArticle sv + 1)" by (simp add: int64_def)
  moreover from this have "wrap64 (LastArticle sv + 1) = LastArticle sv + 1" by (rule wrap64_id)
  moreover from assms(1) True lt have "first' = wrap64 (LastArticle sv + 1)"
    by (auto simp: resume_adjust_def Let_def split: if_splits)
  ultimately show ?thesis by simp
next
  case False
  with assms(1) have "first' = first"
    by (auto simp: resume_adjust_def Let_def split: if_splits)
  with False assms(2) show ?thesis by simp
qed

lemma resume_adjust_int64:
  assumes "resume_adjust useLatest saved first lastN = (Some first', msgs)"
    and "int64 first" and "int64 lastN"
  shows "int64 first'"
proof (cases "useLatest \<and> saved \<noteq> None")
  case True
  then obtain sv where "saved = Some sv" by auto
  with True assms resume_adjust_above [of sv first lastN first' msgs] show ?thesis by simp
next
  case False
  with assms(1) have "first' = first"
    by (auto simp: resume_adjust_def split: if_splits option.splits)
  with assms(2) show ?thesis by simp
qed

lemma retrieve_range_saved:
  assumes "int64 first" and "int64 lastN"
  shows "\<exists>new. saved_articles grp
                  (saves (snd (retrieve_range lib grp days useLatest B first lastN w))) =
                saved_articles grp (saves w) @ new
              \<and> (\<forall>sv. state w grp = Some sv \<longrightarrow> (\<forall>v\<in>set new. LastArticle sv < v))
              \<and> (1 \<le> B \<and> lastN + B < 2 ^ 63 \<longrightarrow> sorted_wrt (<) new)"
proof (cases "resume_adjust useLatest (state w grp) first lastN")
  case (Pair f msgs)
  show ?thesis
  proof (cases f)
    case None
    with Pair have "saves (snd (retrieve_range lib grp days useLatest B first lastN w)) = saves w"
      by (simp add: retrieve_range_def)
    then show ?thesis by simp
  next
    case (Some first')
    let ?w2 = "w\<lparr>stderr := stderr w @ msgs, ticks := Suc (ticks w)\<rparr>"
    let ?cutoff = "AddDate_days lib (time_Now lib (ticks w)) (wrap64 (- days))"
    let ?run = "batch_loop lib grp days useLatest B first' lastN ?cutoff first' [] ?w2"
    from Pair Some have rr: "retrieve_range lib grp days useLatest B first lastN w = ?run"
      by (simp add: retrieve_range_loop)
    have "?run = (fst ?run, snd ?run)" by simp
    from batch_loop_saved [OF this] obtain new where
      n: "saved_articles grp (saves (snd ?run)) = saved_articles grp (saves ?w2) @ new"
        "\<forall>v\<in>set new. first' < v \<and> useLatest"
        "1 \<le> B \<and> lastN + B < 2 ^ 63 \<and> int64 first' \<longrightarrow> sorted_wrt (<) new"
      by blast
    have i: "int64 first'" using Pair Some assms by (auto intro: resume_adjust_int64)
    have above: "\<forall>sv. state w grp = Some sv \<longrightarrow> (\<forall>v\<in>set new. LastArticle sv < v)"
    proof (intro allI impI ballI)
      fix sv v
      assume sv: "state w grp = Some sv" and v: "v \<in> set new"
      with n(2) have "first' < v" "useLatest" by auto
      moreover from Pair Some sv \<open>useLatest\<close> assms have "LastArticle sv < first'"
        using resume_adjust_above [of sv first lastN first' msgs] by simp
      ultimately show "LastArticle sv < v" by simp
    qed
    from n(1) rr have "saved_articles grp
                  (saves (snd (retrieve_range lib grp days useLatest B first lastN w))) =
                saved_articles grp (saves w) @ new"
      by simp
    with above n(3) i show ?thesis by blast
  qed
qed

text \<open>
  Claim C8, as stated, fails where the batch arithmetic wraps around. In resume mode,
  with the range \<open>(0, 2\<^sup>6\<^sup>3 - 1)\<close> and the batch size \<open>2\<^sup>6\<^sup>3 - 1\<close>, the first batch ends
  at \<open>2\<^sup>6\<^sup>3 - 2\<close> and is saved, the second wraps to \<open>-3\<close> and is not, and the third ends
  at \<open>2\<^sup>6\<^sup>3 - 4\<close> and is saved: the second value saved is smaller than the first.
\<close>

theorem saved_positions_counterexample:
  "saved_articles ''g''
     (saves (snd (getRecentArticles test_lib (listings_world ''211 1 0 9223372036854775807 g'' 3)
                    ''g'' 0 True 9223372036854775807))) =
     [9223372036854775806, 9223372036854775804]
   \<and> \<not> sorted_wrt (\<le>) (saved_articles ''g''
     (saves (snd (getRecentArticles test_lib (listings_world ''211 1 0 9223372036854775807 g'' 3)
                    ''g'' 0 True 9223372036854775807))))
   \<and> xover_ranges
       (sent (snd (getRecentArticles test_lib (listings_world ''211 1 0 9223372036854775807 g'' 3)
                    ''g'' 0 True 9223372036854775807))) =
     [(0, 9223372036854775806), (9223372036854775807, - 3), (- 2, 9223372036854775804),
      (9223372036854775805, - 5)]"
  by code_simp

text \<open>
  Claim C8, amended. Let the group's status line give the range \<open>(first, last)\<close>. The
  values that a run saves for the group follow the ones saved before it, and: (across
  runs) when the table holds a state for the group at the start of the run, every value
  the run saves is larger than that state's last article, whatever the batch size; (within
  a run) for \<open>B \<ge> 1\<close> and \<open>last + B < 2\<^sup>6\<^sup>3\<close>, so that the batch arithmetic does not wrap
  around, each value the run saves is larger than the one it saved before.
\<close>

theorem saved_positions_increase:
  assumes "ReadString (inp w) = Some (response, rest)"
    and "HasPrefix response ''211 ''"
    and "4 \<le> length (Fields lib response)"
    and "Atoi lib (Fields lib response ! 2) = Some first"
    and "Atoi lib (Fields lib response ! 3) = Some lastN"
    and "int64 first" and "int64 lastN"
  shows "\<exists>new. saved_articles grp
                  (saves (snd (getRecentArticles lib w grp days useLatest B))) =
                saved_articles grp (saves w) @ new
              \<and> (\<forall>sv. state w grp = Some sv \<longrightarrow> (\<forall>v\<in>set new. LastArticle sv < v))
              \<and> (1 \<le> B \<and> lastN + B < 2 ^ 63 \<longrightarrow> sorted_wrt (<) new)"
proof -
  let ?w = "w\<lparr>sent := sent w @ [GROUP grp], inp := rest\<rparr>"
  have sel: "getRecentArticles lib w grp days useLatest B =
             retrieve_range lib grp days useLatest B first lastN ?w"
    using assms(1-5) by (rule getRecentArticles_selected)
  from retrieve_range_saved [OF assms(6,7), where grp = grp and lib = lib and days = days
      and useLatest = useLatest and B = B and w = ?w] sel
  show ?thesis by simp
qed

theorem saved_positions_increase_witness:
  "ReadString (inp resumed_world) =
     Some (''211 1000 1 1000 g'' @ CRLF, concat (replicate 2 empty_listing))
   \<and> HasPrefix (''211 1000 1 1000 g'' @ CRLF) ''211 ''
   \<and> 4 \<le> length (Fields test_lib (''211 1000 1 1000 g'' @ CRLF))
   \<and> Atoi test_lib (Fields test_lib (''211 1000 1 1000 g'' @ CRLF) ! 2) = Some 1
   \<and> Atoi test_lib (Fields test_lib (''211 1000 1 1000 g'' @ CRLF) ! 3) = Some 1000
   \<and> int64 1 \<and> int64 1000
   \<and> state resumed_world ''g'' = Some \<lparr>LastArticle = 500, LastFetch = 0\<rparr>
   \<and> (1 :: int) \<le> 250 \<and> (1000 :: int) + 250 < 2 ^ 63
   \<and> saved_articles ''g'' (saves resumed_world) = []
   \<and> saved_articles ''g''
        (saves (snd (getRecentArticles test_lib resumed_world ''g'' 0 True 250))) = [750, 1000]
   \<and> sorted_wrt (<) [750, 1000 :: int]
   \<and> (500 :: int) < 750 \<and> (500 :: int) < 1000"
proof -
  let ?resp = "''211 1000 1 1000 g'' @ CRLF"
  have rd: "ReadString (inp resumed_world) = Some (?resp, concat (replicate 2 empty_listing))"
    by (simp add: resumed_world_def listings_world_def world0_def)
  have pre: "HasPrefix ?resp ''211 ''" by (simp add: HasPrefix_def)
  have len: "4 \<le> length (Fields test_lib ?resp)" by code_simp
  have a1: "Atoi test_lib (Fields test_lib ?resp ! 2) = Some 1" by code_simp
  have a2: "Atoi test_lib (Fields test_lib ?resp ! 3) = Some 1000" by code_simp
  have i: "int64 1" "int64 1000" by (simp_all add: int64_def)
  have st: "state resumed_world ''g'' = Some \<lparr>LastArticle = 500, LastFetch = 0\<rparr>"
    by (simp add: resumed_world_def)
  have b: "(1 :: int) \<le> 250" "(1000 :: int) + 250 < 2 ^ 63" by simp_all
  have s0: "saved_articles ''g'' (saves resumed_world) = []"
    by (simp add: resumed_world_def listings_world_def world0_def)
  have run: "saved_articles ''g''
        (saves (snd (getRecentArticles test_lib resumed_world ''g'' 0 True 250))) = [750, 1000]"
    by code_simp
  from saved_positions_increase [OF rd pre len a1 a2 i, where grp = "''g''" and days = 0
      and useLatest = True and B = 250]
  obtain new where
    n: "saved_articles ''g''
          (saves (snd (getRecentArticles test_lib resumed_world ''g'' 0 True 250))) =
        saved_articles ''g'' (saves resumed_world) @ new"
      "\<forall>sv. state resumed_world ''g'' = Some sv \<longrightarrow> (\<forall>v\<in>set new. LastArticle sv < v)"
      "(1 :: int) \<le> 250 \<and> (1000 :: int) + 250 < 2 ^ 63 \<longrightarrow> sorted_wrt (<) new"
    by blast
  from n(1) run s0 have new: "new = [750, 1000]" by simp
  from n(3) b have sorted: "sorted_wrt (<) [750, 1000 :: int]" unfolding new by blast
  from n(2) st have above: "(500 :: int) < 750" "(500 :: int) < 1000" unfolding new by auto
  from rd pre len a1 a2 i st b s0 run sorted above show ?thesis by (simp only: simp_thms)
qed

end
